theory Spec2Isabelle
  imports Main "HOL-Library.Word" "HOL-Library.AList"
begin

section \<open>Errors, formatted messages and events\<close>

text \<open>
  Go errors are kept symbolic: \<open>fmt.Errorf(format, args...)\<close> becomes \<open>Errorf format args\<close>,
  where an argument printed with \<open>%w\<close> is \<open>W e\<close> (the wrapped error), one printed with
  \<open>%s\<close> is \<open>S e\<close>, with \<open>%d\<close> is \<open>D n\<close> and with \<open>%q\<close> is \<open>Q s\<close>.
  \<open>ErrClosed\<close> is the sentinel \<open>perf.ErrClosed\<close>; \<open>ErrExt msg\<close> is any other error
  that a collaborator outside these sources returns.
\<close>

datatype error = ErrClosed | ErrExt string | Errorf string "arg list"
and arg = D nat | Q string | S error | W error

text \<open>\<open>errors.Is(err, perf.ErrClosed)\<close>: the sentinel itself, or reached through \<open>%w\<close>.\<close>

fun is_ErrClosed :: "error \<Rightarrow> bool" and wraps_ErrClosed :: "arg \<Rightarrow> bool" where
  "is_ErrClosed ErrClosed = True"
| "is_ErrClosed (ErrExt _) = False"
| "is_ErrClosed (Errorf _ as) = list_ex wraps_ErrClosed as"
| "wraps_ErrClosed (W e) = is_ErrClosed e"
| "wraps_ErrClosed _ = False"

text \<open>A message is either \<open>fmt.Sprintf(format, args...)\<close> or \<open>err.Error()\<close>.\<close>

datatype message = Sprintf string "arg list" | ErrorText error

text \<open>
  Modelled from the spec: package \<open>types\<close> is not among the sources. \<open>types.Err\<close> and
  \<open>types.Warn\<close> build the status event that the spec calls an error event and a warning
  event: the message with its severity tag.
\<close>

datatype EventType = ERR | WARN

record types_Event =
  Type :: EventType
  Message :: message

definition types_Err :: "message \<Rightarrow> types_Event" where
  "types_Err msg = \<lparr>Type = ERR, Message = msg\<rparr>"

definition types_Warn :: "message \<Rightarrow> types_Event" where
  "types_Warn msg = \<lparr>Type = WARN, Message = msg\<rparr>"

section \<open>Program templates, loaded collections and the calls on the kernel\<close>

type_synonym pid = "32 word"
type_synonym netns = "64 word"

definition SocketsMapName :: string where
  "SocketsMapName = ''sockets''"

record MapSpec =
  Name :: string

record ProgramSpec =
  Instructions :: "nat list"

text \<open>
  \<open>ebpf.CollectionSpec\<close>: the maps and programs by key, and the constants that
  \<open>RewriteConstants\<close> patches.
\<close>

record CollectionSpec =
  Maps :: "(string \<times> MapSpec) list"
  Programs :: "(string \<times> ProgramSpec) list"
  Consts :: "(string \<times> 32 word) list"

text \<open>\<open>ebpf.Collection\<close>: a loaded program/map set; programs and maps by name.\<close>

record Collection =
  cid :: nat
  cPrograms :: "(string \<times> nat) list"
  cMaps :: "(string \<times> nat) list"

text \<open>
  The generated \<open>socketenricherObjects\<close>: the loaded programs and the sockets map, each a
  pointer that is nil (\<open>None\<close>) before \<open>LoadAndAssign\<close>.
\<close>

record socketenricherObjects =
  IgBindIpv4E :: "nat option"
  IgBindIpv4X :: "nat option"
  IgBindIpv6E :: "nat option"
  IgBindIpv6X :: "nat option"
  IgTcpcV4CoE :: "nat option"
  IgTcpcV4CoX :: "nat option"
  IgTcpcV6CoE :: "nat option"
  IgTcpcV6CoX :: "nat option"
  IgUdpSendmsg :: "nat option"
  IgUdp6Sendmsg :: "nat option"
  IgFreeIpv4E :: "nat option"
  IgFreeIpv6E :: "nat option"
  IgSocketsIt :: "nat option"
  IgSkCleanup :: "nat option"
  Sockets :: "nat option"

definition zero_objs :: socketenricherObjects where
  "zero_objs = \<lparr>IgBindIpv4E = None, IgBindIpv4X = None, IgBindIpv6E = None, IgBindIpv6X = None,
     IgTcpcV4CoE = None, IgTcpcV4CoX = None, IgTcpcV6CoE = None, IgTcpcV6CoX = None,
     IgUdpSendmsg = None, IgUdp6Sendmsg = None, IgFreeIpv4E = None, IgFreeIpv6E = None,
     IgSocketsIt = None, IgSkCleanup = None, Sockets = None\<rparr>"

datatype probe = Kprobe | Kretprobe

text \<open>
  The calls that change something outside the process, in the order they are made.
  An acquisition is recorded when it succeeds, with the handle it returned; a release is
  recorded with the handle it is called on.
\<close>

datatype effect =
    NewCollectionWithOptions CollectionSpec "(string \<times> nat option) list" nat
  | NewReader "nat option" nat
  | OpenRawSock pid int
  | SetsockoptInt int int nat
  | perfRd_Close "nat option"
  | unix_Close int
  | collection_Close "nat option"
  | go_listen netns "nat option" nat
  | log_Errorf string error
  | LoadAndAssign socketenricherObjects
  | link_attach probe string "nat option" nat
  | AttachIter "nat option" "nat option" nat
  | iter_Open nat nat
  | ReadAll nat
  | file_Close nat
  | iter_Close nat
  | go_cleanupDeletedSockets nat
  | close_done
  | CloseLink nat
  | fd_Close nat

section \<open>Package socketenricher\<close>

text \<open>
  \<open>SocketEnricher\<close>. \<open>closeOnce\<close> is the \<open>sync.Once\<close>: \<open>True\<close> once its function has run.
  \<open>done_chan\<close> is the channel \<open>done\<close>: \<open>None\<close> is nil, \<open>Some False\<close> an open channel,
  \<open>Some True\<close> a closed one.
\<close>

record SocketEnricher =
  objs :: socketenricherObjects
  links :: "nat list"
  closeOnce :: bool
  done_chan :: "bool option"

definition SocketsMap :: "SocketEnricher \<Rightarrow> nat option" where
  "SocketsMap se = Sockets (objs se)"

text \<open>
  What the collaborators of \<open>start\<close> answer: the asset load, \<open>LoadAndAssign\<close>, the
  \<open>i\<close>-th \<open>link.Kprobe\<close>/\<open>link.Kretprobe\<close> call, the two \<open>link.AttachIter\<close> calls, the
  iterator's \<open>Open\<close> and \<open>io.ReadAll\<close>.
\<close>

record start_env =
  loadSocketenricher :: "error option"
  LoadAndAssign_res :: "error + socketenricherObjects"
  link_res :: "nat \<Rightarrow> error + nat"
  socketsIter_res :: "error + nat"
  Open_res :: "error + nat"
  ReadAll_err :: "error option"
  cleanupIter_res :: "error + nat"

text \<open>
  The twelve probes of \<open>start\<close> in the order of the source: kind, kernel symbol, program,
  and the format of the error returned when the attach fails.
\<close>

definition probes :: "(probe \<times> string \<times> (socketenricherObjects \<Rightarrow> nat option) \<times> string) list" where
  "probes =
    [(Kprobe, ''inet_bind'', IgBindIpv4E, ''attaching ipv4 kprobe: %w''),
     (Kretprobe, ''inet_bind'', IgBindIpv4X, ''attaching ipv4 kretprobe: %w''),
     (Kprobe, ''inet6_bind'', IgBindIpv6E, ''attaching ipv6 kprobe: %w''),
     (Kretprobe, ''inet6_bind'', IgBindIpv6X, ''attaching ipv6 kretprobe: %w''),
     (Kprobe, ''tcp_v4_connect'', IgTcpcV4CoE, ''attaching connect ipv4 kprobe: %w''),
     (Kretprobe, ''tcp_v4_connect'', IgTcpcV4CoX, ''attaching connect ipv4 kretprobe: %w''),
     (Kprobe, ''tcp_v6_connect'', IgTcpcV6CoE, ''attaching ipv6 connect kprobe: %w''),
     (Kretprobe, ''tcp_v6_connect'', IgTcpcV6CoX, ''attaching ipv6 connect kretprobe: %w''),
     (Kprobe, ''udp_sendmsg'', IgUdpSendmsg, ''attaching udp_sendmsg ipv4 kprobe: %w''),
     (Kprobe, ''udpv6_sendmsg'', IgUdp6Sendmsg, ''attaching udpv6_sendmsg ipv6 kprobe: %w''),
     (Kprobe, ''inet_release'', IgFreeIpv4E, ''attaching ipv4 release kprobe: %w''),
     (Kprobe, ''inet6_release'', IgFreeIpv6E, ''attaching ipv6 release kprobe: %w'')]"

text \<open>
  One attach after the other: a failure returns at once with the links appended so far,
  a success appends the link to \<open>se.links\<close>.
\<close>

fun attach_probes ::
  "(nat \<Rightarrow> error + nat) \<Rightarrow> nat \<Rightarrow>
   (probe \<times> string \<times> (socketenricherObjects \<Rightarrow> nat option) \<times> string) list \<Rightarrow>
   SocketEnricher \<Rightarrow> effect list \<Rightarrow> error option \<times> SocketEnricher \<times> effect list" where
  "attach_probes res i [] se es = (None, se, es)"
| "attach_probes res i ((k, fname, prog, msg) # ps) se es =
     (case res i of
        Inl e \<Rightarrow> (Some (Errorf msg [W e]), se, es)
      | Inr l \<Rightarrow> attach_probes res (Suc i) ps (se\<lparr>links := links se @ [l]\<rparr>)
                  (es @ [link_attach k fname (prog (objs se)) l]))"

text \<open>
  \<open>start\<close>. The two deferred closes (\<open>file.Close\<close>, then \<open>socketsIter.Close\<close>) run when
  the function returns, on every path after the one that registered them.
\<close>

definition start :: "start_env \<Rightarrow> SocketEnricher \<Rightarrow> error option \<times> SocketEnricher \<times> effect list" where
  "start env se =
    (case loadSocketenricher env of
       Some e \<Rightarrow> (Some (Errorf ''loading asset: %w'' [W e]), se, [])
     | None \<Rightarrow>
    (case LoadAndAssign_res env of
       Inl e \<Rightarrow> (Some (Errorf ''loading ebpf program: %w'' [W e]), se, [])
     | Inr ob \<Rightarrow>
    (case attach_probes (link_res env) 0 probes (se\<lparr>objs := ob\<rparr>) [LoadAndAssign ob] of
       (Some e, se1, es) \<Rightarrow> (Some e, se1, es)
     | (None, se1, es) \<Rightarrow>
    (case socketsIter_res env of
       Inl e \<Rightarrow> (Some (Errorf ''attach BPF iterator: %w'' [W e]), se1, es)
     | Inr it \<Rightarrow>
    (let es1 = es @ [AttachIter (IgSocketsIt (objs se1)) None it] in
     case Open_res env of
       Inl e \<Rightarrow> (Some (Errorf ''open BPF iterator: %w'' [W e]), se1, es1 @ [iter_Close it])
     | Inr f \<Rightarrow>
    (let es2 = es1 @ [iter_Open it f] in
     case ReadAll_err env of
       Some e \<Rightarrow> (Some (Errorf ''read BPF iterator: %w'' [W e]), se1,
                  es2 @ [file_Close f, iter_Close it])
     | None \<Rightarrow>
    (let es3 = es2 @ [ReadAll f] in
     case cleanupIter_res env of
       Inl e \<Rightarrow> (Some (Errorf ''attach BPF iterator for cleanups: %w'' [W e]), se1,
                 es3 @ [file_Close f, iter_Close it])
     | Inr c \<Rightarrow>
         (None, se1\<lparr>links := links se1 @ [c], done_chan := Some False\<rparr>,
          es3 @ [AttachIter (IgSkCleanup (objs se1)) (Sockets (objs se1)) c,
                 go_cleanupDeletedSockets c, file_Close f, iter_Close it]))))))))"

text \<open>
  \<open>closeOnce.Do\<close> with its function: nothing when the Once has fired; otherwise the Once
  fires and \<open>done\<close>, if not nil, is closed. Closing a closed channel panics (\<open>None\<close>).
\<close>

definition closeOnce_Do :: "SocketEnricher \<Rightarrow> (SocketEnricher \<times> effect list) option" where
  "closeOnce_Do se =
    (if closeOnce se then Some (se, [])
     else (case done_chan se of
             None \<Rightarrow> Some (se\<lparr>closeOnce := True\<rparr>, [])
           | Some False \<Rightarrow> Some (se\<lparr>closeOnce := True, done_chan := Some True\<rparr>, [close_done])
           | Some True \<Rightarrow> None))"

text \<open>
  \<open>Close\<close>. The generated \<open>objs.Close\<close> is not among the sources and is the parameter
  \<open>oc\<close>: the calls it makes and the objects it leaves. \<open>None\<close> is a panic.
\<close>

definition Close ::
  "(socketenricherObjects \<Rightarrow> effect list \<times> socketenricherObjects) \<Rightarrow> SocketEnricher \<Rightarrow>
   (SocketEnricher \<times> effect list) option" where
  "Close oc se =
    (case closeOnce_Do se of
       None \<Rightarrow> None
     | Some (se1, es1) \<Rightarrow>
         (let es2 = map CloseLink (links se1);
              se2 = se1\<lparr>links := []\<rparr>;
              (es3, ob) = oc (objs se2)
          in Some (se2\<lparr>objs := ob\<rparr>, es1 @ es2 @ es3)))"

definition NewSocketEnricher ::
  "(socketenricherObjects \<Rightarrow> effect list \<times> socketenricherObjects) \<Rightarrow> start_env \<Rightarrow>
   ((error + SocketEnricher) \<times> effect list) option" where
  "NewSocketEnricher oc env =
    (let se = \<lparr>objs = zero_objs, links = [], closeOnce = False, done_chan = None\<rparr> in
     case start env se of
       (Some e, se1, es) \<Rightarrow>
         (case Close oc se1 of
            None \<Rightarrow> None
          | Some (se2, es') \<Rightarrow> Some (Inl e, es @ es'))
     | (None, se1, es) \<Rightarrow> Some (Inr se1, es))"

text \<open>Repeated calls of \<open>Close\<close>, one after the other, with the calls they make.\<close>

fun Close_times ::
  "(socketenricherObjects \<Rightarrow> effect list \<times> socketenricherObjects) \<Rightarrow> nat \<Rightarrow> SocketEnricher \<Rightarrow>
   (SocketEnricher \<times> effect list) option" where
  "Close_times oc 0 se = Some (se, [])"
| "Close_times oc (Suc n) se =
     (case Close oc se of
        None \<Rightarrow> None
      | Some (se1, es1) \<Rightarrow>
          (case Close_times oc n se1 of
             None \<Rightarrow> None
           | Some (se2, es2) \<Rightarrow> Some (se2, es1 @ es2)))"

section \<open>Package networktracer\<close>

text \<open>
  \<open>attachment\<close>: the pointers \<open>collection\<close> and \<open>perfRd\<close> are nil when \<open>None\<close>;
  \<open>users\<close> is the Go map used as a set of pids.
\<close>

record attachment =
  collection :: "Collection option"
  perfRd :: "nat option"
  sockFd :: int
  users :: "pid set"

text \<open>
  The state outside the Tracer: the store of \<open>CollectionSpec\<close> objects, addressed by
  index (the Tracer holds the address of its template), and the calls made so far.
\<close>

record world =
  heap :: "CollectionSpec list"
  trace :: "effect list"

text \<open>
  \<open>spec.Copy()\<close>: a new object at a fresh address, with the contents of the old one.
  The address \<open>p\<close> is that of an object in the store: \<open>NewTracer\<close> reads
  \<open>spec.Programs\<close> and \<open>spec.Maps\<close>, so a Tracer exists only for a template that is
  not nil.
\<close>

definition spec_Copy :: "nat \<Rightarrow> CollectionSpec list \<Rightarrow> nat \<times> CollectionSpec list" where
  "spec_Copy p h = (length h, h @ [h ! p])"

text \<open>\<open>spec.RewriteConstants(consts)\<close> when it succeeds: the object at \<open>p\<close> is patched.\<close>

definition RewriteConstants ::
  "nat \<Rightarrow> (string \<times> 32 word) list \<Rightarrow> CollectionSpec list \<Rightarrow> CollectionSpec list" where
  "RewriteConstants p consts h =
     h[p := (h ! p)\<lparr>Consts := fold (\<lambda>(k, v). AList.update k v) consts (Consts (h ! p))\<rparr>]"

text \<open>
  What the collaborators of \<open>newAttachment\<close> answer: \<open>RewriteConstants\<close>,
  \<open>ebpf.NewCollectionWithOptions\<close>, \<open>perf.NewReader\<close>, \<open>rawsock.OpenRawSock\<close> and
  \<open>syscall.SetsockoptInt\<close>. The two constructors of the ebpf library return nil with
  an error.
\<close>

record newAttachment_env =
  RewriteConstants_err :: "error option"
  NewCollection_res :: "error + Collection"
  NewReader_res :: "error + nat"
  OpenRawSock_res :: "error + nat"
  SetsockoptInt_err :: "error option"

text \<open>
  Modelled from the spec: package \<open>rawsock\<close> is not among the sources. A raw socket that
  was not opened is recognised by the sentinel \<open>-1\<close>, which \<open>OpenRawSock\<close> returns with
  its error; a descriptor that was opened is not negative.
\<close>

definition rawsock_OpenRawSock :: "error + nat \<Rightarrow> int \<times> error option" where
  "rawsock_OpenRawSock r = (case r of Inl e \<Rightarrow> (- 1, Some e) | Inr fd \<Rightarrow> (int fd, None))"

text \<open>
  The body of \<open>newAttachment\<close>: the attachment as far as it was filled, the value of the
  named result \<open>err\<close>, and the world.
\<close>

definition newAttachment_body ::
  "newAttachment_env \<Rightarrow> pid \<Rightarrow> netns \<Rightarrow> SocketEnricher option \<Rightarrow> nat \<Rightarrow> string \<Rightarrow> string \<Rightarrow> int \<Rightarrow>
   world \<Rightarrow> attachment \<times> error option \<times> world" where
  "newAttachment_body env pid netns socketEnricher spec bpfProgName bpfPerfMapName bpfSocketAttach w =
    (let a = \<lparr>collection = None, perfRd = None, sockFd = - 1, users = {pid}\<rparr>;
         (spec', h) = spec_Copy spec (heap w);
         w1 = w\<lparr>heap := h\<rparr>
     in
     case (case socketEnricher of
             None \<Rightarrow> Inr (w1, [])
           | Some se \<Rightarrow>
               (let u32netns = (ucast netns :: 32 word) in
                case RewriteConstants_err env of
                  Some e \<Rightarrow> Inl (Errorf ''rewriting constants while attaching to pid %d: %w''
                                    [D (unat pid), W e])
                | None \<Rightarrow> Inr (w1\<lparr>heap := RewriteConstants spec' [(''current_netns'', u32netns)] h\<rparr>,
                               [(SocketsMapName, SocketsMap se)]))) of
       Inl e \<Rightarrow> (a, Some e, w1)
     | Inr (w2, mapReplacements) \<Rightarrow>
    (case NewCollection_res env of
       Inl e \<Rightarrow> (a, Some (Errorf ''creating BPF collection: %w'' [W e]), w2)
     | Inr c \<Rightarrow>
    (let a1 = a\<lparr>collection := Some c\<rparr>;
         w3 = w2\<lparr>trace := trace w2 @
                 [NewCollectionWithOptions (heap w2 ! spec') mapReplacements (cid c)]\<rparr>
     in
     case NewReader_res env of
       Inl e \<Rightarrow> (a1, Some (Errorf ''getting a perf reader: %w'' [W e]), w3)
     | Inr r \<Rightarrow>
    (let a2 = a1\<lparr>perfRd := Some r\<rparr>;
         w4 = w3\<lparr>trace := trace w3 @ [NewReader (map_of (cMaps c) bpfPerfMapName) r]\<rparr>
     in
     case map_of (cPrograms c) bpfProgName of
       None \<Rightarrow> (a2, Some (Errorf ''BPF program %q not found'' [Q bpfProgName]), w4)
     | Some prog \<Rightarrow>
    (case rawsock_OpenRawSock (OpenRawSock_res env) of
       (fd, Some e) \<Rightarrow> (a2\<lparr>sockFd := fd\<rparr>, Some (Errorf ''opening raw socket: %w'' [W e]), w4)
     | (fd, None) \<Rightarrow>
    (let a3 = a2\<lparr>sockFd := fd\<rparr>;
         w5 = w4\<lparr>trace := trace w4 @ [OpenRawSock pid fd]\<rparr>
     in
     case SetsockoptInt_err env of
       Some e \<Rightarrow> (a3, Some (Errorf ''attaching BPF program: %w'' [W e]), w5)
     | None \<Rightarrow>
         (a3, None, w5\<lparr>trace := trace w5 @ [SetsockoptInt fd bpfSocketAttach prog]\<rparr>)))))))"

text \<open>The deferred function of \<open>newAttachment\<close>, run when \<open>err\<close> is not nil.\<close>

definition newAttachment_deferred :: "attachment \<Rightarrow> effect list" where
  "newAttachment_deferred a =
     (case perfRd a of None \<Rightarrow> [] | Some r \<Rightarrow> [perfRd_Close (Some r)]) @
     (if sockFd a \<noteq> - 1 then [unix_Close (sockFd a)] else []) @
     (case collection a of None \<Rightarrow> [] | Some c \<Rightarrow> [collection_Close (Some (cid c))])"

definition newAttachment ::
  "newAttachment_env \<Rightarrow> pid \<Rightarrow> netns \<Rightarrow> SocketEnricher option \<Rightarrow> nat \<Rightarrow> string \<Rightarrow> string \<Rightarrow> int \<Rightarrow>
   world \<Rightarrow> (error + attachment) \<times> world" where
  "newAttachment env pid netns socketEnricher spec bpfProgName bpfPerfMapName bpfSocketAttach w =
    (case newAttachment_body env pid netns socketEnricher spec bpfProgName bpfPerfMapName
            bpfSocketAttach w of
       (a, Some e, w') \<Rightarrow> (Inl e, w'\<lparr>trace := trace w' @ newAttachment_deferred a\<rparr>)
     | (a, None, w') \<Rightarrow> (Inr a, w'))"

text \<open>
  \<open>Tracer\<close>. \<open>spec\<close> is the address of the template in the store; \<open>eventHandler\<close> is the
  identity of the registered callback.
\<close>

record 'ev Tracer =
  socketEnricher :: "SocketEnricher option"
  spec :: nat
  attachments :: "netns \<rightharpoonup> attachment"
  bpfProgName :: string
  bpfPerfMapName :: string
  bpfSocketAttach :: int
  baseEvent :: "types_Event \<Rightarrow> 'ev option"
  processEvent :: "8 word list \<Rightarrow> netns \<Rightarrow> 'ev option \<times> error option"
  eventHandler :: "nat option"

text \<open>
  The loop of \<open>NewTracer\<close> over \<open>spec.Maps\<close>: the first map named \<open>sockets\<close> creates the
  enricher and leaves the loop. \<open>None\<close> is a panic. A failure of \<open>NewSocketEnricher\<close> is
  logged and leaves \<open>socketEnricher\<close> nil.
\<close>

fun NewTracer_range ::
  "(socketenricherObjects \<Rightarrow> effect list \<times> socketenricherObjects) \<Rightarrow> start_env \<Rightarrow> MapSpec list \<Rightarrow>
   (SocketEnricher option \<times> effect list) option" where
  "NewTracer_range oc env [] = Some (None, [])"
| "NewTracer_range oc env (m # ms) =
     (if Name m = SocketsMapName then
        (case NewSocketEnricher oc env of
           None \<Rightarrow> None
         | Some (Inl err, es) \<Rightarrow> Some (None, es @ [log_Errorf ''creating socket enricher: %s'' err])
         | Some (Inr se, es) \<Rightarrow> Some (Some se, es))
      else NewTracer_range oc env ms)"

text \<open>
  \<open>NewTracer\<close>. \<open>gadgets.FixBpfKtimeGetBootNs\<close> is not among the sources and is the
  parameter \<open>fix\<close>, applied to the programs of the template in place. The error returned
  is always nil.
\<close>

definition NewTracer ::
  "((string \<times> ProgramSpec) list \<Rightarrow> (string \<times> ProgramSpec) list) \<Rightarrow>
   (socketenricherObjects \<Rightarrow> effect list \<times> socketenricherObjects) \<Rightarrow> start_env \<Rightarrow>
   nat \<Rightarrow> string \<Rightarrow> string \<Rightarrow> int \<Rightarrow> (types_Event \<Rightarrow> 'ev option) \<Rightarrow>
   (8 word list \<Rightarrow> netns \<Rightarrow> 'ev option \<times> error option) \<Rightarrow> world \<Rightarrow>
   (('ev Tracer \<times> error option) \<times> world) option" where
  "NewTracer fix oc env specp progName perfMapName socketAttach baseEv processEv w =
    (let h = (heap w)[specp := (heap w ! specp)\<lparr>Programs := fix (Programs (heap w ! specp))\<rparr>] in
     case NewTracer_range oc env (map snd (Maps (h ! specp))) of
       None \<Rightarrow> None
     | Some (se, es) \<Rightarrow>
         Some ((\<lparr>socketEnricher = se, spec = specp, attachments = Map.empty,
                  bpfProgName = progName, bpfPerfMapName = perfMapName,
                  bpfSocketAttach = socketAttach, baseEvent = baseEv, processEvent = processEv,
                  eventHandler = None\<rparr>, None),
               w\<lparr>heap := h, trace := trace w @ es\<rparr>))"

text \<open>
  What the collaborators of \<open>Attach\<close> answer: \<open>containerutils.GetNetNs\<close>, and those of
  \<open>newAttachment\<close>.
\<close>

record Attach_env =
  GetNetNs_res :: "error + netns"
  newAttachment_res :: newAttachment_env

definition Attach ::
  "Attach_env \<Rightarrow> pid \<Rightarrow> nat \<Rightarrow> 'ev Tracer \<Rightarrow> world \<Rightarrow> error option \<times> 'ev Tracer \<times> world" where
  "Attach env pid eventCallback t w =
    (case GetNetNs_res env of
       Inl err \<Rightarrow> (Some (Errorf ''getting network namespace of pid %d: %w'' [D (unat pid), W err]), t, w)
     | Inr netns \<Rightarrow>
    (case attachments t netns of
       Some a \<Rightarrow> (None, t\<lparr>attachments := (attachments t)(netns \<mapsto> a\<lparr>users := insert pid (users a)\<rparr>)\<rparr>, w)
     | None \<Rightarrow>
    (case newAttachment (newAttachment_res env) pid netns (socketEnricher t) (spec t)
            (bpfProgName t) (bpfPerfMapName t) (bpfSocketAttach t) w of
       (Inl err, w') \<Rightarrow>
         (Some (Errorf ''creating network tracer attachment for pid %d: %w'' [D (unat pid), W err]),
          t, w')
     | (Inr a, w') \<Rightarrow>
         (None, t\<lparr>attachments := (attachments t)(netns \<mapsto> a)\<rparr>,
          w'\<lparr>trace := trace w' @ [go_listen netns (perfRd a) eventCallback]\<rparr>))))"

definition releaseAttachment ::
  "netns \<Rightarrow> attachment \<Rightarrow> 'ev Tracer \<Rightarrow> world \<Rightarrow> 'ev Tracer \<times> world" where
  "releaseAttachment netns a t w =
     (t\<lparr>attachments := (attachments t)(netns := None)\<rparr>,
      w\<lparr>trace := trace w @
          [perfRd_Close (perfRd a), unix_Close (sockFd a),
           collection_Close (map_option cid (collection a))]\<rparr>)"

text \<open>
  \<open>Detach\<close>. Go ranges over a map in an order of its own choosing: \<open>order\<close> is the order
  in which this call visits the keys; a key that is not in the map is not visited.
\<close>

fun Detach ::
  "netns list \<Rightarrow> pid \<Rightarrow> 'ev Tracer \<Rightarrow> world \<Rightarrow> error option \<times> 'ev Tracer \<times> world" where
  "Detach [] pid t w = (Some (Errorf ''pid %d is not attached'' [D (unat pid)]), t, w)"
| "Detach (netns # order) pid t w =
     (case attachments t netns of
        None \<Rightarrow> Detach order pid t w
      | Some a \<Rightarrow>
          if pid \<in> users a then
            (let a' = a\<lparr>users := users a - {pid}\<rparr>;
                 t' = t\<lparr>attachments := (attachments t)(netns \<mapsto> a')\<rparr>
             in if card (users a') = 0
                then (let (t'', w') = releaseAttachment netns a' t' w in (None, t'', w'))
                else (None, t', w))
          else Detach order pid t w)"

text \<open>
  The ingestion task \<open>listen\<close>, over the results of its successive \<open>rd.Read()\<close> calls.
  It returns the arguments of its calls of \<open>eventCallback\<close>, in order, and whether it has
  returned (\<open>True\<close>) or is waiting in the next read (\<open>False\<close>).
\<close>

record perf_Record =
  RawSample :: "8 word list"
  LostSamples :: "64 word"

fun listen ::
  "netns \<Rightarrow> (types_Event \<Rightarrow> 'ev option) \<Rightarrow> (8 word list \<Rightarrow> netns \<Rightarrow> 'ev option \<times> error option) \<Rightarrow>
   (error + perf_Record) list \<Rightarrow> 'ev option list \<times> bool" where
  "listen netns baseEv processEv [] = ([], False)"
| "listen netns baseEv processEv (Inl err # reads) =
     (if is_ErrClosed err then ([], True)
      else ([baseEv (types_Err (Sprintf ''Error reading perf ring buffer (%d): %s''
                                  [D (unat netns), S err]))], True))"
| "listen netns baseEv processEv (Inr record # reads) =
     (let (calls, returned) = listen netns baseEv processEv reads in
      if LostSamples record \<noteq> 0 then
        (baseEv (types_Warn (Sprintf ''lost %d samples (%d)''
                               [D (unat (LostSamples record)), D (unat netns)])) # calls, returned)
      else
        (case processEv (RawSample record) netns of
           (event, Some err) \<Rightarrow> (baseEv (types_Err (ErrorText err)) # calls, returned)
         | (None, None) \<Rightarrow> (calls, returned)
         | (Some ev, None) \<Rightarrow> (Some ev # calls, returned)))"

section \<open>Notions used to state the properties\<close>

text \<open>Whether \<open>pid\<close> is in the \<open>users\<close> of the attachment registered for a namespace.\<close>

definition has_user :: "'ev Tracer \<Rightarrow> pid \<Rightarrow> netns \<Rightarrow> bool" where
  "has_user t pid n = (case attachments t n of None \<Rightarrow> False | Some a \<Rightarrow> pid \<in> users a)"

text \<open>The first namespace, in the order a \<open>Detach\<close> visits them, whose attachment has \<open>pid\<close>.\<close>

definition first_found :: "netns list \<Rightarrow> pid \<Rightarrow> 'ev Tracer \<Rightarrow> netns option" where
  "first_found order pid t = find (has_user t pid) order"

text \<open>
  The template an attachment for \<open>netns\<close> is loaded from: the Tracer's template, with the
  constant \<open>current_netns\<close> set when there is an enricher.
\<close>

definition template_for :: "SocketEnricher option \<Rightarrow> netns \<Rightarrow> CollectionSpec \<Rightarrow> CollectionSpec" where
  "template_for se netns cs =
     (case se of
        None \<Rightarrow> cs
      | Some _ \<Rightarrow> cs\<lparr>Consts := AList.update ''current_netns'' (ucast netns) (Consts cs)\<rparr>)"

text \<open>
  A sequence of calls on one Tracer, each with what its collaborators answer; \<open>run\<close>
  makes them in order and collects the errors returned.
\<close>

datatype op = is_OpAttach: OpAttach Attach_env pid nat | OpDetach "netns list" pid

fun run :: "op list \<Rightarrow> 'ev Tracer \<Rightarrow> world \<Rightarrow> error option list \<times> 'ev Tracer \<times> world" where
  "run [] t w = ([], t, w)"
| "run (OpAttach env pid cb # ops) t w =
     (case Attach env pid cb t w of (e, t1, w1) \<Rightarrow>
        (case run ops t1 w1 of (es, t2, w2) \<Rightarrow> (e # es, t2, w2)))"
| "run (OpDetach order pid # ops) t w =
     (case Detach order pid t w of (e, t1, w1) \<Rightarrow>
        (case run ops t1 w1 of (es, t2, w2) \<Rightarrow> (e # es, t2, w2)))"

fun live :: "op list \<Rightarrow> pid set \<Rightarrow> pid set" where
  "live [] L = L"
| "live (OpAttach env pid cb # ops) L = live ops (insert pid L)"
| "live (OpDetach order pid # ops) L = live ops (L - {pid})"

definition constructs :: "newAttachment_env \<Rightarrow> string \<Rightarrow> bool" where
  "constructs env progName =
     (RewriteConstants_err env = None \<and>
      (case NewCollection_res env of Inl _ \<Rightarrow> False | Inr c \<Rightarrow> map_of (cPrograms c) progName \<noteq> None) \<and>
      (case NewReader_res env of Inl _ \<Rightarrow> False | Inr _ \<Rightarrow> True) \<and>
      (case OpenRawSock_res env of Inl _ \<Rightarrow> False | Inr _ \<Rightarrow> True) \<and>
      SetsockoptInt_err env = None)"

fun op_ok :: "netns \<Rightarrow> string \<Rightarrow> op \<Rightarrow> bool" where
  "op_ok n progName (OpAttach env pid cb) =
     (GetNetNs_res env = Inr n \<and> constructs (newAttachment_res env) progName)"
| "op_ok n progName (OpDetach order pid) = (n \<in> set order)"

definition only_at :: "netns \<Rightarrow> pid set \<Rightarrow> (netns \<rightharpoonup> attachment) \<Rightarrow> bool" where
  "only_at n L m = (if L = {} then m = Map.empty else (\<exists>a. m = [n \<mapsto> a] \<and> users a = L))"

text \<open>Whether a template declares a map named \<open>sockets\<close>.\<close>

definition declares_sockets :: "CollectionSpec \<Rightarrow> bool" where
  "declares_sockets cs = list_ex (\<lambda>m. Name m = SocketsMapName) (map snd (Maps cs))"

text \<open>
  A registered attachment holds its three resources and has a user; a Tracer is well
  formed when every registered attachment is.
\<close>

definition wf_attachment :: "attachment \<Rightarrow> bool" where
  "wf_attachment a = (collection a \<noteq> None \<and> perfRd a \<noteq> None \<and> 0 \<le> sockFd a \<and> users a \<noteq> {})"

definition wf_tracer :: "'ev Tracer \<Rightarrow> bool" where
  "wf_tracer t = (\<forall>n a. attachments t n = Some a \<longrightarrow> wf_attachment a)"

section \<open>Concrete inputs\<close>

text \<open>A template with a perf map and the sockets map, alone in the store.\<close>

definition demo_spec :: CollectionSpec where
  "demo_spec = \<lparr>Maps = [(''events'', \<lparr>Name = ''events''\<rparr>), (''sockets'', \<lparr>Name = ''sockets''\<rparr>)],
                 Programs = [(''ig_trace_dns'', \<lparr>Instructions = []\<rparr>)],
                 Consts = [(''current_netns'', 0)]\<rparr>"

definition demo_world :: world where
  "demo_world = \<lparr>heap = [demo_spec], trace = []\<rparr>"

definition demo_collection :: Collection where
  "demo_collection = \<lparr>cid = 1, cPrograms = [(''ig_trace_dns'', 7)], cMaps = [(''events'', 8)]\<rparr>"

text \<open>Collaborators that all succeed, and collaborators whose last step fails.\<close>

definition demo_env :: newAttachment_env where
  "demo_env = \<lparr>RewriteConstants_err = None, NewCollection_res = Inr demo_collection,
                NewReader_res = Inr 2, OpenRawSock_res = Inr 3, SetsockoptInt_err = None\<rparr>"

definition demo_env_fail :: newAttachment_env where
  "demo_env_fail = \<lparr>RewriteConstants_err = None, NewCollection_res = Inr demo_collection,
                NewReader_res = Inr 2, OpenRawSock_res = Inr 3,
                SetsockoptInt_err = Some (ErrExt ''operation not permitted'')\<rparr>"

definition demo_netns :: netns where
  "demo_netns = 4026531840"

definition demo_Attach_env :: Attach_env where
  "demo_Attach_env = \<lparr>GetNetNs_res = Inr demo_netns, newAttachment_res = demo_env\<rparr>"

definition demo_Attach_env_fail :: Attach_env where
  "demo_Attach_env_fail = \<lparr>GetNetNs_res = Inr demo_netns, newAttachment_res = demo_env_fail\<rparr>"

text \<open>A Tracer without attachments, and one with two attachments that both have pid 10.\<close>

definition demo_tracer :: "unit Tracer" where
  "demo_tracer = \<lparr>socketEnricher = None, spec = 0, attachments = Map.empty,
                   bpfProgName = ''ig_trace_dns'', bpfPerfMapName = ''events'',
                   bpfSocketAttach = 50, baseEvent = (\<lambda>ev. None),
                   processEvent = (\<lambda>raw ns. (None, None)), eventHandler = None\<rparr>"

definition demo_attachment :: "nat \<Rightarrow> pid set \<Rightarrow> attachment" where
  "demo_attachment i ps = \<lparr>collection = Some (demo_collection\<lparr>cid := i\<rparr>), perfRd = Some (Suc i),
                           sockFd = int i + 2, users = ps\<rparr>"

definition demo_tracer2 :: "unit Tracer" where
  "demo_tracer2 = demo_tracer\<lparr>attachments :=
      [1 \<mapsto> demo_attachment 10 {10, 11}, 2 \<mapsto> demo_attachment 20 {10}]\<rparr>"

text \<open>A kernel without BTF: the asset of the enricher does not load.\<close>

definition demo_start_env_fail :: start_env where
  "demo_start_env_fail = \<lparr>loadSocketenricher = Some (ErrExt ''no BTF''),
      LoadAndAssign_res = Inl (ErrExt ''no BTF''), link_res = (\<lambda>i. Inl (ErrExt ''no BTF'')),
      socketsIter_res = Inl (ErrExt ''no BTF''), Open_res = Inl (ErrExt ''no BTF''),
      ReadAll_err = None, cleanupIter_res = Inl (ErrExt ''no BTF'')\<rparr>"

text \<open>
  An \<open>objs.Close\<close> that closes the sockets map once, and an enricher with two links, an
  open channel and that map.
\<close>

definition demo_objs_Close :: "socketenricherObjects \<Rightarrow> effect list \<times> socketenricherObjects" where
  "demo_objs_Close ob =
     ((case Sockets ob of None \<Rightarrow> [] | Some fd \<Rightarrow> [fd_Close fd]), ob\<lparr>Sockets := None\<rparr>)"

definition demo_enricher :: SocketEnricher where
  "demo_enricher = \<lparr>objs = zero_objs\<lparr>Sockets := Some 9\<rparr>, links = [4, 5], closeOnce = False,
                     done_chan = Some False\<rparr>"

text \<open>A callback type of strings, with a decoder that fails, filters or yields a packet.\<close>

definition demo_baseEvent :: "types_Event \<Rightarrow> string option" where
  "demo_baseEvent ev = Some (case Type ev of ERR \<Rightarrow> ''error'' | WARN \<Rightarrow> ''warning'')"

definition demo_processEvent :: "8 word list \<Rightarrow> netns \<Rightarrow> string option \<times> error option" where
  "demo_processEvent raw ns =
     (case raw of
        [] \<Rightarrow> (None, Some (ErrExt ''short sample''))
      | b # bs \<Rightarrow> if b = 0 then (None, None) else (Some ''packet'', None))"

definition demo_record :: "8 word list \<Rightarrow> 64 word \<Rightarrow> perf_Record" where
  "demo_record raw lost = \<lparr>RawSample = raw, LostSamples = lost\<rparr>"

text \<open>Three attaches in one namespace; and two attaches followed by two detaches.\<close>

definition demo_ops1 :: "op list" where
  "demo_ops1 = [OpAttach demo_Attach_env 10 0, OpAttach demo_Attach_env 11 0,
                OpAttach demo_Attach_env 10 0]"

definition demo_ops2 :: "op list" where
  "demo_ops2 = [OpAttach demo_Attach_env 10 0, OpAttach demo_Attach_env 11 0,
                OpDetach [demo_netns] 10, OpDetach [demo_netns] 12]"

section \<open>Lemmas\<close>

lemma types_severity: "Type (types_Err msg) = ERR \<and> Type (types_Warn msg) = WARN"
  by (simp add: types_Err_def types_Warn_def)

lemma listen_append:
  "listen netns baseEv processEv (map Inr recs @ reads) =
     (fst (listen netns baseEv processEv (map Inr recs)) @ fst (listen netns baseEv processEv reads),
      snd (listen netns baseEv processEv reads))"
  by (induction recs) (auto split: prod.splits option.splits)

lemma listen_waiting: "snd (listen netns baseEv processEv (map Inr recs)) = False"
  by (induction recs) (auto split: prod.splits option.splits)

lemma Detach_none:
  "first_found order pid t = None \<Longrightarrow>
   Detach order pid t w = (Some (Errorf ''pid %d is not attached'' [D (unat pid)]), t, w)"
  unfolding first_found_def
  by (induction order) (auto simp: has_user_def split: option.splits if_splits)

lemma releaseAttachment_upd:
  "releaseAttachment n a' (t\<lparr>attachments := (attachments t)(n \<mapsto> a')\<rparr>) w =
     (t\<lparr>attachments := (attachments t)(n := None)\<rparr>,
      w\<lparr>trace := trace w @ [perfRd_Close (perfRd a'), unix_Close (sockFd a'),
                            collection_Close (map_option cid (collection a'))]\<rparr>)"
  by (simp add: releaseAttachment_def)

lemma Detach_skip:
  "\<not> has_user t pid n \<Longrightarrow> Detach (n # order) pid t w = Detach order pid t w"
  by (simp add: has_user_def split: option.splits)

lemma Detach_hit:
  "attachments t n = Some a \<Longrightarrow> pid \<in> users a \<Longrightarrow>
   Detach (n # order) pid t w =
     (if users a - {pid} = {}
      then (None, t\<lparr>attachments := (attachments t)(n := None)\<rparr>,
            w\<lparr>trace := trace w @ [perfRd_Close (perfRd a), unix_Close (sockFd a),
                                  collection_Close (map_option cid (collection a))]\<rparr>)
      else (None, t\<lparr>attachments := (attachments t)(n \<mapsto> a\<lparr>users := users a - {pid}\<rparr>)\<rparr>, w))"
  by (simp add: releaseAttachment_upd)

lemma Detach_some:
  "first_found order pid t = Some netns \<Longrightarrow> attachments t netns = Some a \<Longrightarrow>
   Detach order pid t w =
     (if users a - {pid} = {}
      then (None, t\<lparr>attachments := (attachments t)(netns := None)\<rparr>,
            w\<lparr>trace := trace w @ [perfRd_Close (perfRd a), unix_Close (sockFd a),
                                  collection_Close (map_option cid (collection a))]\<rparr>)
      else (None, t\<lparr>attachments := (attachments t)(netns \<mapsto> a\<lparr>users := users a - {pid}\<rparr>)\<rparr>, w))"
  unfolding first_found_def
proof (induction order)
  case Nil
  then show ?case by simp
next
  case (Cons n order)
  show ?case
  proof (cases "has_user t pid n")
    case True
    with Cons.prems have "n = netns" by simp
    with True Cons.prems(2) have "pid \<in> users a" by (simp add: has_user_def)
    with \<open>n = netns\<close> Cons.prems(2) show ?thesis
      using Detach_hit [of t netns a pid order w] by simp
  next
    case False
    with Cons.prems have "find (has_user t pid) order = Some netns" by simp
    from Cons.IH [OF this Cons.prems(2)] show ?thesis
      unfolding Detach_skip [OF False] .
  qed
qed

lemma first_found_has:
  "first_found order pid t = Some netns \<Longrightarrow> \<exists>a. attachments t netns = Some a \<and> pid \<in> users a"
  unfolding first_found_def
  by (auto simp: find_Some_iff has_user_def split: option.splits)

lemma newAttachment_heap:
  "newAttachment env pid netns se p pn pm sa w = (r, w') \<Longrightarrow>
   length (heap w') = Suc (length (heap w)) \<and> take (length (heap w)) (heap w') = heap w"
  unfolding newAttachment_def newAttachment_body_def spec_Copy_def RewriteConstants_def Let_def
  by (auto split: option.splits sum.splits prod.splits)

lemma newAttachment_failure_trace:
  "newAttachment env pid netns se p pn pm sa w = (Inl e, w') \<Longrightarrow>
   trace w' = trace w \<or>
   (\<exists>s rp c. trace w' = trace w @ [NewCollectionWithOptions s rp c, collection_Close (Some c)]) \<or>
   (\<exists>s rp c m r. trace w' = trace w @
       [NewCollectionWithOptions s rp c, NewReader m r,
        perfRd_Close (Some r), collection_Close (Some c)]) \<or>
   (\<exists>s rp c m r fd. trace w' = trace w @
       [NewCollectionWithOptions s rp c, NewReader m r, OpenRawSock pid fd,
        perfRd_Close (Some r), unix_Close fd, collection_Close (Some c)])"
  unfolding newAttachment_def newAttachment_body_def spec_Copy_def RewriteConstants_def Let_def
    newAttachment_deferred_def rawsock_OpenRawSock_def
  by (auto split: option.splits sum.splits prod.splits)

lemma newAttachment_loaded:
  "newAttachment env pid netns se p pn pm sa w = (r, w') \<Longrightarrow> p < length (heap w) \<Longrightarrow>
   NewCollectionWithOptions s rp c \<in> set (drop (length (trace w)) (trace w')) \<Longrightarrow>
   s = template_for se netns (heap w ! p)"
  unfolding newAttachment_def newAttachment_body_def spec_Copy_def RewriteConstants_def Let_def
    newAttachment_deferred_def rawsock_OpenRawSock_def template_for_def
  by (auto split: option.splits sum.splits prod.splits simp: nth_append)

lemma attach_probes_frame:
  "attach_probes res i ps se es = (r, se', es') \<Longrightarrow>
   closeOnce se' = closeOnce se \<and> done_chan se' = done_chan se \<and> objs se' = objs se"
  by (induction res i ps se es rule: attach_probes.induct) (auto split: sum.splits)

lemma start_failure_frame:
  "start env se = (Some e, se', es) \<Longrightarrow> closeOnce se' = closeOnce se \<and> done_chan se' = done_chan se"
  unfolding start_def Let_def
  by (auto split: option.splits sum.splits prod.splits dest: attach_probes_frame)

lemma Close_not_fired:
  "\<not> closeOnce se \<Longrightarrow> done_chan se \<noteq> Some True \<Longrightarrow> Close oc se \<noteq> None"
  unfolding Close_def closeOnce_Do_def Let_def
  by (auto split: option.splits prod.splits bool.splits)

lemma NewSocketEnricher_no_panic: "NewSocketEnricher oc env \<noteq> None"
proof -
  let ?se = "\<lparr>objs = zero_objs, links = [], closeOnce = False, done_chan = None\<rparr>"
  obtain r se1 es where st: "start env ?se = (r, se1, es)" by (cases "start env ?se") auto
  show ?thesis
  proof (cases r)
    case None
    with st show ?thesis by (simp add: NewSocketEnricher_def)
  next
    case (Some e)
    with st start_failure_frame [of env ?se e se1 es]
    have "\<not> closeOnce se1" "done_chan se1 \<noteq> Some True" by auto
    then have "Close oc se1 \<noteq> None" by (rule Close_not_fired)
    with st Some show ?thesis by (auto simp: NewSocketEnricher_def split: prod.splits)
  qed
qed

lemma Close_first:
  "\<not> closeOnce se \<Longrightarrow> done_chan se \<noteq> Some True \<Longrightarrow>
   Close oc se =
     Some (se\<lparr>closeOnce := True, done_chan := map_option (\<lambda>_. True) (done_chan se), links := [],
              objs := snd (oc (objs se))\<rparr>,
           (case done_chan se of None \<Rightarrow> [] | Some _ \<Rightarrow> [close_done]) @
           map CloseLink (links se) @ fst (oc (objs se)))"
  unfolding Close_def closeOnce_Do_def Let_def
  by (auto split: option.splits prod.splits bool.splits)

lemma Close_again:
  "closeOnce se \<Longrightarrow> links se = [] \<Longrightarrow> oc (objs se) = ([], objs se) \<Longrightarrow>
   Close oc se = Some (se, [])"
  unfolding Close_def closeOnce_Do_def Let_def
  by (auto split: option.splits prod.splits bool.splits)

lemma Close_times_again:
  "closeOnce se \<Longrightarrow> links se = [] \<Longrightarrow> oc (objs se) = ([], objs se) \<Longrightarrow>
   Close_times oc n se = Some (se, [])"
  by (induction n) (simp_all add: Close_again)

lemma constructs_newAttachment:
  "constructs env pn \<Longrightarrow>
   \<exists>a w' s rp c m r fd prog.
     newAttachment env pid n se p pn pm sa w = (Inr a, w') \<and> users a = {pid} \<and> perfRd a = Some r \<and>
     trace w' = trace w @ [NewCollectionWithOptions s rp c, NewReader m r, OpenRawSock pid fd,
                           SetsockoptInt fd sa prog]"
  unfolding constructs_def newAttachment_def newAttachment_body_def spec_Copy_def Let_def
    rawsock_OpenRawSock_def
  by (auto split: option.splits sum.splits prod.splits)

lemma Attach_existing:
  "GetNetNs_res env = Inr n \<Longrightarrow> attachments t n = Some a \<Longrightarrow>
   Attach env pid cb t w =
     (None, t\<lparr>attachments := (attachments t)(n \<mapsto> a\<lparr>users := insert pid (users a)\<rparr>)\<rparr>, w)"
  by (simp add: Attach_def)

lemma find_unique:
  "n \<in> set xs \<Longrightarrow> P n \<Longrightarrow> \<forall>m. P m \<longrightarrow> n = m \<Longrightarrow> find P xs = Some n"
proof (induction xs)
  case Nil
  from Nil(1) show ?case by simp
next
  case (Cons x xs)
  show ?case
  proof (cases "P x")
    case True
    with Cons.prems(3) have "n = x" by blast
    with True show ?thesis by simp
  next
    case False
    with Cons.prems(1,2) have "n \<in> set xs" by auto
    from Cons.IH [OF this Cons.prems(2,3)] False show ?thesis by simp
  qed
qed

lemma find_absent: "\<forall>m. \<not> P m \<Longrightarrow> find P xs = None"
  by (induction xs) auto

lemma first_found_unique:
  "n \<in> set order \<Longrightarrow> has_user t pid n \<Longrightarrow> \<forall>m. has_user t pid m \<longrightarrow> n = m \<Longrightarrow>
   first_found order pid t = Some n"
  unfolding first_found_def by (rule find_unique)

lemma first_found_absent:
  "\<forall>m. \<not> has_user t pid m \<Longrightarrow> first_found order pid t = None"
  unfolding first_found_def by (rule find_absent)

lemma Attach_fresh:
  assumes "GetNetNs_res env = Inr n" "constructs (newAttachment_res env) (bpfProgName t)"
    "attachments t n = None"
  shows "\<exists>a w' s rp c m r fd prog.
     Attach env pid cb t w = (None, t\<lparr>attachments := (attachments t)(n \<mapsto> a)\<rparr>, w') \<and>
     users a = {pid} \<and>
     trace w' = trace w @ [NewCollectionWithOptions s rp c, NewReader m r, OpenRawSock pid fd,
                           SetsockoptInt fd (bpfSocketAttach t) prog, go_listen n (Some r) cb]"
proof -
  from constructs_newAttachment [OF assms(2), of pid n "socketEnricher t" "spec t"
      "bpfPerfMapName t" "bpfSocketAttach t" w]
  obtain a w1 s rp c m r fd prog where
    na: "newAttachment (newAttachment_res env) pid n (socketEnricher t) (spec t) (bpfProgName t)
           (bpfPerfMapName t) (bpfSocketAttach t) w = (Inr a, w1)"
    and a: "users a = {pid}" "perfRd a = Some r"
    and tr: "trace w1 = trace w @ [NewCollectionWithOptions s rp c, NewReader m r, OpenRawSock pid fd,
                           SetsockoptInt fd (bpfSocketAttach t) prog]"
    by blast
  have eq: "Attach env pid cb t w =
      (None, t\<lparr>attachments := (attachments t)(n \<mapsto> a)\<rparr>,
       w1\<lparr>trace := trace w1 @ [go_listen n (perfRd a) cb]\<rparr>)"
    using assms(1,3) na by (simp add: Attach_def)
  show ?thesis
  proof (intro exI conjI)
    show "Attach env pid cb t w =
      (None, t\<lparr>attachments := (attachments t)(n \<mapsto> a)\<rparr>,
       w1\<lparr>trace := trace w1 @ [go_listen n (perfRd a) cb]\<rparr>)" by (fact eq)
    show "users a = {pid}" by (fact a(1))
    show "trace (w1\<lparr>trace := trace w1 @ [go_listen n (perfRd a) cb]\<rparr>) =
      trace w @ [NewCollectionWithOptions s rp c, NewReader m r, OpenRawSock pid fd,
                 SetsockoptInt fd (bpfSocketAttach t) prog, go_listen n (Some r) cb]"
      using a(2) tr by simp
  qed
qed

lemma Attach_step:
  assumes inv: "only_at n L (attachments t)" and ok: "op_ok n (bpfProgName t) (OpAttach env pid cb)"
    and st: "Attach env pid cb t w = (e, t1, w1)"
  shows "e = None \<and> only_at n (insert pid L) (attachments t1) \<and> bpfProgName t1 = bpfProgName t"
proof (cases "L = {}")
  case True
  with inv have "attachments t n = None" by (simp add: only_at_def)
  from Attach_fresh [OF _ _ this, of env pid cb w] ok st True inv show ?thesis
    by (auto simp: only_at_def)
next
  case False
  with inv obtain a where a: "attachments t = [n \<mapsto> a]" "users a = L" by (auto simp: only_at_def)
  then have "attachments t n = Some a" by simp
  from Attach_existing [OF _ this, of env pid cb w] ok st a show ?thesis
    by (auto simp: only_at_def)
qed

lemma Detach_step:
  assumes inv: "only_at n L (attachments t)" and ok: "op_ok n pn (OpDetach order pid)"
    and st: "Detach order pid t w = (e, t1, w1)"
  shows "only_at n (L - {pid}) (attachments t1) \<and> bpfProgName t1 = bpfProgName t"
proof (cases "pid \<in> L")
  case False
  have "\<forall>m. \<not> has_user t pid m"
    using inv False by (auto simp: only_at_def has_user_def split: option.splits if_splits)
  from Detach_none [OF first_found_absent, OF this, of order w] st inv False show ?thesis
    by auto
next
  case True
  then have "L \<noteq> {}" by auto
  with inv obtain a where a: "attachments t = [n \<mapsto> a]" "users a = L" by (auto simp: only_at_def)
  then have an: "attachments t n = Some a" by simp
  have "first_found order pid t = Some n"
  proof (rule first_found_unique)
    show "n \<in> set order" using ok by simp
    show "has_user t pid n" using an a True by (simp add: has_user_def)
    show "\<forall>m. has_user t pid m \<longrightarrow> n = m"
      using a by (auto simp: has_user_def split: option.splits if_splits)
  qed
  from Detach_some [OF this an, of w] st a show ?thesis
    by (auto simp: only_at_def split: if_splits)
qed

lemma run_only_at:
  "only_at n L (attachments t) \<Longrightarrow> list_all (op_ok n (bpfProgName t)) ops \<Longrightarrow>
   run ops t w = (errs, t', w') \<Longrightarrow> only_at n (live ops L) (attachments t')"
proof (induction ops arbitrary: L t w errs t' w')
  case Nil
  then show ?case by simp
next
  case (Cons x ops)
  show ?case
  proof (cases x)
    case (OpAttach env pid cb)
    obtain e t1 w1 where st: "Attach env pid cb t w = (e, t1, w1)" by (cases "Attach env pid cb t w") auto
    obtain es t2 w2 where r: "run ops t1 w1 = (es, t2, w2)" by (cases "run ops t1 w1") auto
    from Cons.prems OpAttach have ok: "op_ok n (bpfProgName t) (OpAttach env pid cb)" by simp
    from Attach_step [OF Cons.prems(1) ok st]
    have i1: "only_at n (insert pid L) (attachments t1)" and pn: "bpfProgName t1 = bpfProgName t" by auto
    from Cons.prems(2) pn have "list_all (op_ok n (bpfProgName t1)) ops" by simp
    from Cons.IH [OF i1 this r] Cons.prems(3) OpAttach st r show ?thesis by simp
  next
    case (OpDetach order pid)
    obtain e t1 w1 where st: "Detach order pid t w = (e, t1, w1)" by (cases "Detach order pid t w") auto
    obtain es t2 w2 where r: "run ops t1 w1 = (es, t2, w2)" by (cases "run ops t1 w1") auto
    from Cons.prems OpDetach have ok: "op_ok n (bpfProgName t) (OpDetach order pid)" by simp
    from Detach_step [OF Cons.prems(1) ok st]
    have i1: "only_at n (L - {pid}) (attachments t1)" and pn: "bpfProgName t1 = bpfProgName t" by auto
    from Cons.prems(2) pn have "list_all (op_ok n (bpfProgName t1)) ops" by simp
    from Cons.IH [OF i1 this r] Cons.prems(3) OpDetach st r show ?thesis by simp
  qed
qed

lemma run_attach_existing:
  "attachments t n \<noteq> None \<Longrightarrow> list_all (op_ok n pn) ops \<Longrightarrow> list_all is_OpAttach ops \<Longrightarrow>
   run ops t w = (errs, t', w') \<Longrightarrow> w' = w \<and> errs = replicate (length ops) None"
proof (induction ops arbitrary: t errs t' w')
  case Nil
  then show ?case by simp
next
  case (Cons x ops)
  from Cons.prems(3) obtain env pid cb where x: "x = OpAttach env pid cb" by (cases x) auto
  from Cons.prems(1) obtain a where a: "attachments t n = Some a" by auto
  from Cons.prems(2) x have g: "GetNetNs_res env = Inr n" by simp
  let ?t1 = "t\<lparr>attachments := (attachments t)(n \<mapsto> a\<lparr>users := insert pid (users a)\<rparr>)\<rparr>"
  obtain es t2 w2 where r: "run ops ?t1 w = (es, t2, w2)" by (cases "run ops ?t1 w") auto
  have "attachments ?t1 n \<noteq> None" by simp
  from Cons.IH [OF this _ _ r] Cons.prems(2,3) have "w2 = w \<and> es = replicate (length ops) None" by simp
  with Cons.prems(4) x r Attach_existing [OF g a, of pid cb w] show ?case by simp
qed

lemma attach_probes_links:
  "attach_probes res i ps se es = (None, se', es') \<Longrightarrow>
   links se' = links se @ map (\<lambda>j. projr (res j)) [i..<i + length ps]"
proof (induction res i ps se es rule: attach_probes.induct)
  case (1 res i se es)
  then show ?case by simp
next
  case (2 res i k fname prog msg ps se es)
  from "2.prems" obtain l where l: "res i = Inr l" by (auto split: sum.splits)
  with "2.prems" have "attach_probes res (Suc i) ps (se\<lparr>links := links se @ [l]\<rparr>)
                  (es @ [link_attach k fname (prog (objs se)) l]) = (None, se', es')"
    by simp
  from "2.IH" [OF l this] have "links se' =
      links se @ l # map (\<lambda>j. projr (res j)) [Suc i..<Suc i + length ps]"
    by simp
  moreover have "[i..<i + length ((k, fname, prog, msg) # ps)] = i # [Suc i..<Suc i + length ps]"
    by (subst upt_rec) simp
  ultimately show ?case using l by simp
qed

lemma start_links:
  assumes "start env se = (None, se', es)"
  shows "links se' = links se @ map (\<lambda>j. projr (link_res env j)) [0..<12] @
                       [projr (cleanupIter_res env)] \<and>
         done_chan se' = Some False \<and> closeOnce se' = closeOnce se"
proof -
  from assms obtain ob se1 es1 c where
    ap: "attach_probes (link_res env) 0 probes (se\<lparr>objs := ob\<rparr>) [LoadAndAssign ob] = (None, se1, es1)"
    and c: "cleanupIter_res env = Inr c"
    and se': "se' = se1\<lparr>links := links se1 @ [c], done_chan := Some False\<rparr>"
    unfolding start_def Let_def by (auto split: option.splits sum.splits prod.splits)
  have "length probes = 12" by (simp add: probes_def)
  with attach_probes_links [OF ap]
  have "links se1 = links se @ map (\<lambda>j. projr (link_res env j)) [0..<12]" by simp
  moreover from attach_probes_frame [OF ap] have "closeOnce se1 = closeOnce se" by simp
  ultimately show ?thesis using c se' by simp
qed

lemma NewTracer_range_without:
  "\<not> list_ex (\<lambda>m. Name m = SocketsMapName) ms \<Longrightarrow> NewTracer_range oc env ms = Some (None, [])"
  by (induction ms) auto

lemma NewTracer_range_with:
  "list_ex (\<lambda>m. Name m = SocketsMapName) ms \<Longrightarrow>
   NewTracer_range oc env ms =
     (case NewSocketEnricher oc env of
        None \<Rightarrow> None
      | Some (Inl err, es) \<Rightarrow> Some (None, es @ [log_Errorf ''creating socket enricher: %s'' err])
      | Some (Inr se, es) \<Rightarrow> Some (Some se, es))"
  by (induction ms) auto

lemma Maps_after_fix: "Maps ((h[p := (h ! p)\<lparr>Programs := x\<rparr>]) ! p) = Maps (h ! p)"
  by (cases "p < length h") (simp_all add: list_update_beyond)

lemma run_attach_first:
  assumes fresh: "attachments t netns = None"
    and ok: "list_all (op_ok netns (bpfProgName t)) ops"
    and att: "list_all is_OpAttach ops" and ne: "ops \<noteq> []"
    and r: "run ops t w = (errs, t', w')"
  shows "errs = replicate (length ops) None \<and>
         (\<exists>s rp c m r fd prog pid cb. trace w' = trace w @
            [NewCollectionWithOptions s rp c, NewReader m r, OpenRawSock pid fd,
             SetsockoptInt fd (bpfSocketAttach t) prog, go_listen netns (Some r) cb])"
proof -
  from ne att obtain env pid cb rest where ops: "ops = OpAttach env pid cb # rest"
    by (cases ops; cases "hd ops") auto
  from ok ops have g: "GetNetNs_res env = Inr netns"
    and c: "constructs (newAttachment_res env) (bpfProgName t)" by simp_all
  from Attach_fresh [OF g c fresh, of pid cb w]
  obtain a w1 s rp c m r fd prog where
    at: "Attach env pid cb t w = (None, t\<lparr>attachments := (attachments t)(netns \<mapsto> a)\<rparr>, w1)"
    and tr: "trace w1 = trace w @ [NewCollectionWithOptions s rp c, NewReader m r, OpenRawSock pid fd,
                           SetsockoptInt fd (bpfSocketAttach t) prog, go_listen netns (Some r) cb]"
    by blast
  let ?t1 = "t\<lparr>attachments := (attachments t)(netns \<mapsto> a)\<rparr>"
  obtain es t2 w2 where rr: "run rest ?t1 w1 = (es, t2, w2)" by (cases "run rest ?t1 w1") auto
  have "attachments ?t1 netns \<noteq> None" by simp
  from run_attach_existing [OF this _ _ rr, of "bpfProgName t"] ok att ops
  have "w2 = w1" "es = replicate (length rest) None" by simp_all
  with r ops at rr tr show ?thesis by auto
qed

lemma newAttachment_wf:
  "newAttachment env pid netns se p pn pm sa w = (Inr a, w') \<Longrightarrow> wf_attachment a"
  unfolding newAttachment_def newAttachment_body_def spec_Copy_def Let_def
    rawsock_OpenRawSock_def wf_attachment_def
  by (auto split: option.splits sum.splits prod.splits)

lemma Attach_wf:
  assumes "wf_tracer t" and "Attach env pid cb t w = (e, t', w')"
  shows "wf_tracer t'"
proof (cases "GetNetNs_res env")
  case (Inl err)
  with assms show ?thesis by (simp add: Attach_def)
next
  case (Inr netns)
  show ?thesis
  proof (cases "attachments t netns")
    case (Some a)
    with assms(1) have "wf_attachment a" by (simp add: wf_tracer_def)
    then have "wf_attachment (a\<lparr>users := insert pid (users a)\<rparr>)" by (simp add: wf_attachment_def)
    with assms Inr Some show ?thesis by (auto simp: Attach_def wf_tracer_def split: if_splits)
  next
    case None
    obtain r w1 where n: "newAttachment (newAttachment_res env) pid netns (socketEnricher t) (spec t)
            (bpfProgName t) (bpfPerfMapName t) (bpfSocketAttach t) w = (r, w1)"
      by (cases "newAttachment (newAttachment_res env) pid netns (socketEnricher t) (spec t)
            (bpfProgName t) (bpfPerfMapName t) (bpfSocketAttach t) w") auto
    show ?thesis
    proof (cases r)
      case (Inl err)
      with assms Inr None n show ?thesis by (simp add: Attach_def)
    next
      case (Inr a)
      with n have "wf_attachment a" by (auto dest: newAttachment_wf)
      with assms \<open>GetNetNs_res env = Inr netns\<close> None n Inr show ?thesis
        by (auto simp: Attach_def wf_tracer_def split: if_splits)
    qed
  qed
qed

lemma Detach_wf:
  assumes "wf_tracer t" and "Detach order pid t w = (e, t', w')"
  shows "wf_tracer t'"
proof (cases "first_found order pid t")
  case None
  from Detach_none [OF this, of w] assms show ?thesis by simp
next
  case (Some netns)
  from first_found_has [OF Some] obtain a where a: "attachments t netns = Some a" by blast
  with assms(1) have "wf_attachment a" by (simp add: wf_tracer_def)
  then have "users a - {pid} \<noteq> {} \<Longrightarrow> wf_attachment (a\<lparr>users := users a - {pid}\<rparr>)"
    by (simp add: wf_attachment_def)
  with Detach_some [OF Some a, of w] assms show ?thesis
    by (auto simp: wf_tracer_def split: if_splits)
qed

lemma run_wf:
  "wf_tracer t \<Longrightarrow> run ops t w = (errs, t', w') \<Longrightarrow> wf_tracer t'"
proof (induction ops arbitrary: t w errs t' w')
  case Nil
  then show ?case by simp
next
  case (Cons x ops)
  show ?case
  proof (cases x)
    case (OpAttach env pid cb)
    obtain e t1 w1 where st: "Attach env pid cb t w = (e, t1, w1)" by (cases "Attach env pid cb t w") auto
    obtain es t2 w2 where r: "run ops t1 w1 = (es, t2, w2)" by (cases "run ops t1 w1") auto
    from Cons.IH [OF Attach_wf [OF Cons.prems(1) st] r] Cons.prems(2) OpAttach st r
    show ?thesis by simp
  next
    case (OpDetach order pid)
    obtain e t1 w1 where st: "Detach order pid t w = (e, t1, w1)" by (cases "Detach order pid t w") auto
    obtain es t2 w2 where r: "run ops t1 w1 = (es, t2, w2)" by (cases "run ops t1 w1") auto
    from Cons.IH [OF Detach_wf [OF Cons.prems(1) st] r] Cons.prems(2) OpDetach st r
    show ?thesis by simp
  qed
qed


section \<open>The properties\<close>

subsection \<open>C1: one attachment per namespace\<close>

text \<open>
  Claim C1. On a Tracer without attachments, take any sequence of \<open>Attach\<close> and
  \<open>Detach\<close> calls whose pids all resolve to the namespace \<open>netns\<close>, where a construction
  that is attempted succeeds and every \<open>Detach\<close> visits \<open>netns\<close>. Afterwards the
  \<open>users\<close> of the attachment of \<open>netns\<close> are exactly the pids attached and not yet
  detached (\<open>live\<close>), so their number is the number of those pids, and there is no
  attachment when there is no such pid. When the sequence consists of \<open>Attach\<close> calls
  only, every call returns success and the calls made on the kernel are those of one
  construction, the first: one collection, one reader, one raw socket, one ingestion
  task; the later calls only add their pid.
\<close>

theorem Attach_same_netns:
  assumes fresh: "attachments t = Map.empty"
    and ok: "list_all (op_ok netns (bpfProgName t)) ops"
  shows "case run ops t w of
           (errs, t', w') \<Rightarrow>
             (live ops {} = {} \<longrightarrow> attachments t' = Map.empty) \<and>
             (live ops {} \<noteq> {} \<longrightarrow>
                (\<exists>a. attachments t' = [netns \<mapsto> a] \<and> users a = live ops {} \<and>
                     card (users a) = card (live ops {}))) \<and>
             (list_all is_OpAttach ops \<and> ops \<noteq> [] \<longrightarrow>
                errs = replicate (length ops) None \<and>
                (\<exists>s rp c m r fd prog pid cb. trace w' = trace w @
                   [NewCollectionWithOptions s rp c, NewReader m r, OpenRawSock pid fd,
                    SetsockoptInt fd (bpfSocketAttach t) prog, go_listen netns (Some r) cb]))"
proof -
  obtain errs t' w' where r: "run ops t w = (errs, t', w')" by (cases "run ops t w") auto
  from fresh have "only_at netns {} (attachments t)" by (simp add: only_at_def)
  from run_only_at [OF this ok r] have o: "only_at netns (live ops {}) (attachments t')" .
  from fresh have n: "attachments t netns = None" by simp
  have a: "list_all is_OpAttach ops \<and> ops \<noteq> [] \<longrightarrow>
                errs = replicate (length ops) None \<and>
                (\<exists>s rp c m r fd prog pid cb. trace w' = trace w @
                   [NewCollectionWithOptions s rp c, NewReader m r, OpenRawSock pid fd,
                    SetsockoptInt fd (bpfSocketAttach t) prog, go_listen netns (Some r) cb])"
    using run_attach_first [OF n ok _ _ r] by blast
  from o have "(live ops {} = {} \<longrightarrow> attachments t' = Map.empty) \<and>
             (live ops {} \<noteq> {} \<longrightarrow>
                (\<exists>a. attachments t' = [netns \<mapsto> a] \<and> users a = live ops {} \<and>
                     card (users a) = card (live ops {})))"
    by (cases "live ops {} = {}") (auto simp: only_at_def)
  with a show ?thesis unfolding r prod.case by blast
qed

text \<open>
  Two instances: three attaches of pids 10, 11, 10; and attaches of 10 and 11 followed by
  the detach of 10 and of 12, which was never attached.
\<close>

theorem Attach_same_netns_witness:
  "attachments demo_tracer = Map.empty \<and>
   list_all (op_ok demo_netns (bpfProgName demo_tracer)) demo_ops1 \<and>
   list_all (op_ok demo_netns (bpfProgName demo_tracer)) demo_ops2 \<and>
   list_all is_OpAttach demo_ops1 \<and> demo_ops1 \<noteq> [] \<and>
   live demo_ops1 {} = {10, 11} \<and> live demo_ops2 {} = {11} \<and>
   (case run demo_ops1 demo_tracer demo_world of
      (errs, t', w') \<Rightarrow>
        (\<exists>a. attachments t' = [demo_netns \<mapsto> a] \<and> users a = {10, 11} \<and> card (users a) = 2) \<and>
        errs = [None, None, None] \<and>
        (\<exists>s rp c m r fd prog pid cb. trace w' = trace demo_world @
           [NewCollectionWithOptions s rp c, NewReader m r, OpenRawSock pid fd,
            SetsockoptInt fd (bpfSocketAttach demo_tracer) prog, go_listen demo_netns (Some r) cb])) \<and>
   (case run demo_ops2 demo_tracer demo_world of
      (errs, t', w') \<Rightarrow>
        (\<exists>a. attachments t' = [demo_netns \<mapsto> a] \<and> users a = {11} \<and> card (users a) = 1))"
proof -
  have h1: "attachments demo_tracer = Map.empty" by (simp add: demo_tracer_def)
  have c: "constructs demo_env ''ig_trace_dns''"
    by (simp add: constructs_def demo_env_def demo_collection_def)
  have pn: "bpfProgName demo_tracer = ''ig_trace_dns''" by (simp add: demo_tracer_def)
  have h2: "list_all (op_ok demo_netns (bpfProgName demo_tracer)) demo_ops1"
    using c by (simp add: pn demo_ops1_def demo_Attach_env_def)
  have h3: "list_all (op_ok demo_netns (bpfProgName demo_tracer)) demo_ops2"
    using c by (simp add: pn demo_ops2_def demo_Attach_env_def)
  have h4: "list_all is_OpAttach demo_ops1 \<and> demo_ops1 \<noteq> []" by (simp add: demo_ops1_def)
  have l1: "live demo_ops1 {} = {10, 11}" by (auto simp: demo_ops1_def)
  have l2: "live demo_ops2 {} = {11}" by (auto simp: demo_ops2_def)
  have k1: "card {10 :: pid, 11} = 2" by simp
  have k2: "card {11 :: pid} = 1" by simp
  have n1: "{10 :: pid, 11} \<noteq> {}" by simp
  have r1: "replicate (length demo_ops1) (None :: error option) = [None, None, None]"
    by (simp add: demo_ops1_def)
  from Attach_same_netns [OF h1 h2, of demo_world] h4
  have c1: "case run demo_ops1 demo_tracer demo_world of
      (errs, t', w') \<Rightarrow>
        (\<exists>a. attachments t' = [demo_netns \<mapsto> a] \<and> users a = {10, 11} \<and> card (users a) = 2) \<and>
        errs = [None, None, None] \<and>
        (\<exists>s rp c m r fd prog pid cb. trace w' = trace demo_world @
           [NewCollectionWithOptions s rp c, NewReader m r, OpenRawSock pid fd,
            SetsockoptInt fd (bpfSocketAttach demo_tracer) prog, go_listen demo_netns (Some r) cb])"
    unfolding l1 r1 using n1 k1 by (auto split: prod.splits)
  from Attach_same_netns [OF h1 h3, of demo_world]
  have c2: "case run demo_ops2 demo_tracer demo_world of
      (errs, t', w') \<Rightarrow>
        (\<exists>a. attachments t' = [demo_netns \<mapsto> a] \<and> users a = {11} \<and> card (users a) = 1)"
    unfolding l2 by (auto split: prod.splits)
  from h1 h2 h3 h4 l1 l2 c1 c2 show ?thesis by (intro conjI) simp_all
qed

subsection \<open>C2: a construction that fails\<close>

text \<open>
  Claim C2. When \<open>newAttachment\<close> fails, at whichever step, \<open>Attach\<close> returns its error
  (wrapped), the Tracer and so its \<open>attachments\<close> are unchanged, and the calls made are the
  acquisitions up to the failing step followed by one release of each acquired resource
  and of nothing else, in the order reader, raw socket, collection: nothing acquired,
  the collection alone, collection and reader, or all three.
\<close>

theorem Attach_construction_failure:
  assumes "GetNetNs_res env = Inr netns" and "attachments t netns = None"
    and "newAttachment (newAttachment_res env) pid netns (socketEnricher t) (spec t)
           (bpfProgName t) (bpfPerfMapName t) (bpfSocketAttach t) w = (Inl e, w')"
  shows "Attach env pid cb t w =
           (Some (Errorf ''creating network tracer attachment for pid %d: %w'' [D (unat pid), W e]),
            t, w') \<and>
         (trace w' = trace w \<or>
          (\<exists>s rp c. trace w' = trace w @
              [NewCollectionWithOptions s rp c, collection_Close (Some c)]) \<or>
          (\<exists>s rp c m r. trace w' = trace w @
              [NewCollectionWithOptions s rp c, NewReader m r,
               perfRd_Close (Some r), collection_Close (Some c)]) \<or>
          (\<exists>s rp c m r fd. trace w' = trace w @
              [NewCollectionWithOptions s rp c, NewReader m r, OpenRawSock pid fd,
               perfRd_Close (Some r), unix_Close fd, collection_Close (Some c)]))"
proof
  show "Attach env pid cb t w =
           (Some (Errorf ''creating network tracer attachment for pid %d: %w'' [D (unat pid), W e]),
            t, w')"
    using assms by (simp add: Attach_def)
  show "trace w' = trace w \<or>
          (\<exists>s rp c. trace w' = trace w @
              [NewCollectionWithOptions s rp c, collection_Close (Some c)]) \<or>
          (\<exists>s rp c m r. trace w' = trace w @
              [NewCollectionWithOptions s rp c, NewReader m r,
               perfRd_Close (Some r), collection_Close (Some c)]) \<or>
          (\<exists>s rp c m r fd. trace w' = trace w @
              [NewCollectionWithOptions s rp c, NewReader m r, OpenRawSock pid fd,
               perfRd_Close (Some r), unix_Close fd, collection_Close (Some c)])"
    by (rule newAttachment_failure_trace [OF assms(3)])
qed

text \<open>An instance: the last step, \<open>SetsockoptInt\<close>, fails and all three are released.\<close>

theorem Attach_construction_failure_witness:
  "GetNetNs_res demo_Attach_env_fail = Inr demo_netns \<and>
   attachments demo_tracer demo_netns = None \<and>
   newAttachment (newAttachment_res demo_Attach_env_fail) 10 demo_netns (socketEnricher demo_tracer)
     (spec demo_tracer) (bpfProgName demo_tracer) (bpfPerfMapName demo_tracer)
     (bpfSocketAttach demo_tracer) demo_world =
     (Inl (Errorf ''attaching BPF program: %w'' [W (ErrExt ''operation not permitted'')]),
      \<lparr>heap = [demo_spec, demo_spec],
       trace = [NewCollectionWithOptions demo_spec [] 1, NewReader (Some 8) 2, OpenRawSock 10 3,
                perfRd_Close (Some 2), unix_Close 3, collection_Close (Some 1)]\<rparr>) \<and>
   Attach demo_Attach_env_fail 10 0 demo_tracer demo_world =
     (Some (Errorf ''creating network tracer attachment for pid %d: %w''
              [D (unat (10 :: pid)),
               W (Errorf ''attaching BPF program: %w'' [W (ErrExt ''operation not permitted'')])]),
      demo_tracer,
      \<lparr>heap = [demo_spec, demo_spec],
       trace = [NewCollectionWithOptions demo_spec [] 1, NewReader (Some 8) 2, OpenRawSock 10 3,
                perfRd_Close (Some 2), unix_Close 3, collection_Close (Some 1)]\<rparr>)"
proof -
  have h1: "GetNetNs_res demo_Attach_env_fail = Inr demo_netns"
    by (simp add: demo_Attach_env_fail_def)
  have h2: "attachments demo_tracer demo_netns = None"
    by (simp add: demo_tracer_def)
  have h3: "newAttachment (newAttachment_res demo_Attach_env_fail) 10 demo_netns
     (socketEnricher demo_tracer) (spec demo_tracer) (bpfProgName demo_tracer)
     (bpfPerfMapName demo_tracer) (bpfSocketAttach demo_tracer) demo_world =
     (Inl (Errorf ''attaching BPF program: %w'' [W (ErrExt ''operation not permitted'')]),
      \<lparr>heap = [demo_spec, demo_spec],
       trace = [NewCollectionWithOptions demo_spec [] 1, NewReader (Some 8) 2, OpenRawSock 10 3,
                perfRd_Close (Some 2), unix_Close 3, collection_Close (Some 1)]\<rparr>)"
    by (simp add: newAttachment_def newAttachment_body_def newAttachment_deferred_def
        spec_Copy_def rawsock_OpenRawSock_def demo_Attach_env_fail_def demo_env_fail_def
        demo_tracer_def demo_world_def demo_collection_def)
  from Attach_construction_failure [OF h1 h2 h3, of 0]
  have "Attach demo_Attach_env_fail 10 0 demo_tracer demo_world =
     (Some (Errorf ''creating network tracer attachment for pid %d: %w''
              [D (unat (10 :: pid)),
               W (Errorf ''attaching BPF program: %w'' [W (ErrExt ''operation not permitted'')])]),
      demo_tracer,
      \<lparr>heap = [demo_spec, demo_spec],
       trace = [NewCollectionWithOptions demo_spec [] 1, NewReader (Some 8) 2, OpenRawSock 10 3,
                perfRd_Close (Some 2), unix_Close 3, collection_Close (Some 1)]\<rparr>)"
    by (rule conjunct1)
  with h1 h2 h3 show ?thesis by (intro conjI)
qed

subsection \<open>C3: detaching the last user releases the attachment\<close>

text \<open>
  Claim C3. Let \<open>netns\<close> be the first namespace visited whose attachment \<open>a\<close> has \<open>pid\<close>.
  If \<open>pid\<close> is the last user of \<open>a\<close>, \<open>Detach\<close> closes the reader, then the raw
  socket, then the collection of \<open>a\<close>, removes \<open>a\<close> from \<open>attachments\<close> and returns
  success, all within the call. If other users remain, \<open>Detach\<close> makes no call at all,
  and \<open>a\<close> stays registered without \<open>pid\<close>. An attachment registered by \<open>Attach\<close>
  holds all three resources and has a user (\<open>run_wf\<close>).
\<close>

theorem Detach_last_user:
  assumes "first_found order pid t = Some netns" and "attachments t netns = Some a"
  shows "(users a = {pid} \<longrightarrow>
            Detach order pid t w =
              (None, t\<lparr>attachments := (attachments t)(netns := None)\<rparr>,
               w\<lparr>trace := trace w @ [perfRd_Close (perfRd a), unix_Close (sockFd a),
                                     collection_Close (map_option cid (collection a))]\<rparr>)) \<and>
         (users a \<noteq> {pid} \<longrightarrow>
            Detach order pid t w =
              (None, t\<lparr>attachments := (attachments t)(netns \<mapsto> a\<lparr>users := users a - {pid}\<rparr>)\<rparr>, w))"
proof -
  from first_found_has [OF assms(1)] assms(2) have "pid \<in> users a" by auto
  then have "users a - {pid} = {} \<longleftrightarrow> users a = {pid}" by auto
  with Detach_some [OF assms, of w] show ?thesis by simp
qed

text \<open>
  Two instances on the same Tracer: pid 10 is the only user in namespace 2 (released), and
  one of two users in namespace 1 (kept).
\<close>

theorem Detach_last_user_witness:
  "first_found [2, 1] 10 demo_tracer2 = Some 2 \<and>
   attachments demo_tracer2 2 = Some (demo_attachment 20 {10}) \<and>
   Detach [2, 1] 10 demo_tracer2 demo_world =
     (None, demo_tracer2\<lparr>attachments := (attachments demo_tracer2)(2 := None)\<rparr>,
      demo_world\<lparr>trace := trace demo_world @
        [perfRd_Close (Some 21), unix_Close 22, collection_Close (Some 20)]\<rparr>) \<and>
   first_found [1, 2] 10 demo_tracer2 = Some 1 \<and>
   attachments demo_tracer2 1 = Some (demo_attachment 10 {10, 11}) \<and>
   Detach [1, 2] 10 demo_tracer2 demo_world =
     (None, demo_tracer2\<lparr>attachments := (attachments demo_tracer2)(1 \<mapsto> demo_attachment 10 {11})\<rparr>,
      demo_world)"
proof -
  have f2: "first_found [2, 1] 10 demo_tracer2 = Some 2"
    by (simp add: first_found_def has_user_def demo_tracer2_def demo_tracer_def demo_attachment_def)
  have a2: "attachments demo_tracer2 2 = Some (demo_attachment 20 {10})"
    by (simp add: demo_tracer2_def demo_tracer_def)
  have f1: "first_found [1, 2] 10 demo_tracer2 = Some 1"
    by (simp add: first_found_def has_user_def demo_tracer2_def demo_tracer_def demo_attachment_def)
  have a1: "attachments demo_tracer2 1 = Some (demo_attachment 10 {10, 11})"
    by (simp add: demo_tracer2_def demo_tracer_def)
  have u2: "users (demo_attachment 20 {10}) = {10}" by (simp add: demo_attachment_def)
  have u1: "users (demo_attachment 10 {10, 11}) \<noteq> {10}" by (simp add: demo_attachment_def)
  have r1: "(demo_attachment 10 {10, 11})\<lparr>users := users (demo_attachment 10 {10, 11}) - {10}\<rparr>
              = demo_attachment 10 {11}"
    by (simp add: demo_attachment_def)
  have r2: "perfRd (demo_attachment 20 {10}) = Some 21" "sockFd (demo_attachment 20 {10}) = 22"
    "map_option cid (collection (demo_attachment 20 {10})) = Some 20"
    by (simp_all add: demo_attachment_def demo_collection_def)
  from Detach_last_user [OF f2 a2, of demo_world] u2 r2
  have d2: "Detach [2, 1] 10 demo_tracer2 demo_world =
     (None, demo_tracer2\<lparr>attachments := (attachments demo_tracer2)(2 := None)\<rparr>,
      demo_world\<lparr>trace := trace demo_world @
        [perfRd_Close (Some 21), unix_Close 22, collection_Close (Some 20)]\<rparr>)"
    by simp
  from Detach_last_user [OF f1 a1, of demo_world] u1 r1
  have d1: "Detach [1, 2] 10 demo_tracer2 demo_world =
     (None, demo_tracer2\<lparr>attachments := (attachments demo_tracer2)(1 \<mapsto> demo_attachment 10 {11})\<rparr>,
      demo_world)"
    by simp
  from f2 a2 d2 f1 a1 d1 show ?thesis by (intro conjI)
qed

subsection \<open>C4: a failure to construct the enricher\<close>

text \<open>
  Claim C4 says that \<open>NewTracer\<close> propagates a failure of \<open>NewSocketEnricher\<close> when the
  template declares a map named \<open>sockets\<close>. It does not: with such a template and a
  kernel on which the enricher's asset does not load, \<open>NewTracer\<close> returns a nil error
  and a Tracer whose \<open>socketEnricher\<close> is nil.
\<close>

theorem NewTracer_enricher_failure_counterexample:
  "declares_sockets (heap demo_world ! 0) \<and>
   NewSocketEnricher demo_objs_Close demo_start_env_fail =
     Some (Inl (Errorf ''loading asset: %w'' [W (ErrExt ''no BTF'')]), []) \<and>
   map_option (snd \<circ> fst)
     (NewTracer id demo_objs_Close demo_start_env_fail 0 ''ig_trace_dns'' ''events'' 50
        demo_baseEvent demo_processEvent demo_world) = Some None \<and>
   map_option (socketEnricher \<circ> fst \<circ> fst)
     (NewTracer id demo_objs_Close demo_start_env_fail 0 ''ig_trace_dns'' ''events'' 50
        demo_baseEvent demo_processEvent demo_world) = Some None"
proof -
  have d: "declares_sockets (heap demo_world ! 0)"
    by (simp add: declares_sockets_def demo_world_def demo_spec_def SocketsMapName_def)
  have e: "NewSocketEnricher demo_objs_Close demo_start_env_fail =
     Some (Inl (Errorf ''loading asset: %w'' [W (ErrExt ''no BTF'')]), [])"
    by (simp add: NewSocketEnricher_def start_def Close_def closeOnce_Do_def demo_objs_Close_def
        demo_start_env_fail_def zero_objs_def)
  have r: "NewTracer_range demo_objs_Close demo_start_env_fail
             (map snd (Maps (heap demo_world ! 0))) =
           Some (None, [log_Errorf ''creating socket enricher: %s''
                          (Errorf ''loading asset: %w'' [W (ErrExt ''no BTF'')])])"
    using d by (simp add: declares_sockets_def NewTracer_range_with e)
  have n1: "map_option (snd \<circ> fst)
     (NewTracer id demo_objs_Close demo_start_env_fail 0 ''ig_trace_dns'' ''events'' 50
        demo_baseEvent demo_processEvent demo_world) = Some None"
    using r by (simp add: NewTracer_def Maps_after_fix)
  have n2: "map_option (socketEnricher \<circ> fst \<circ> fst)
     (NewTracer id demo_objs_Close demo_start_env_fail 0 ''ig_trace_dns'' ''events'' 50
        demo_baseEvent demo_processEvent demo_world) = Some None"
    using r by (simp add: NewTracer_def Maps_after_fix)
  from d e n1 n2 show ?thesis by (intro conjI)
qed

text \<open>
  Claim C4 as amended. \<open>NewTracer\<close> never returns an error. When the
  template declares a map named \<open>sockets\<close>, it calls \<open>NewSocketEnricher\<close> once; a
  failure is logged and the Tracer is constructed without an enricher, a success gives the
  Tracer that enricher. When no map is named \<open>sockets\<close>, the enricher is not constructed
  at all and nothing is logged.
\<close>

theorem NewTracer_enricher_failure_not_fatal:
  "\<exists>t w'. NewTracer fix oc env specp pn pm sa be pe w = Some ((t, None), w') \<and>
     (if declares_sockets (heap w ! specp)
      then (case NewSocketEnricher oc env of
              Some (Inl err, es) \<Rightarrow>
                socketEnricher t = None \<and>
                trace w' = trace w @ es @ [log_Errorf ''creating socket enricher: %s'' err]
            | Some (Inr se, es) \<Rightarrow> socketEnricher t = Some se \<and> trace w' = trace w @ es
            | None \<Rightarrow> False)
      else socketEnricher t = None \<and> trace w' = trace w)"
proof (cases "declares_sockets (heap w ! specp)")
  case False
  then have "NewTracer_range oc env (map snd (Maps (heap w ! specp))) = Some (None, [])"
    by (simp add: declares_sockets_def NewTracer_range_without)
  with False show ?thesis
    by (simp add: NewTracer_def Maps_after_fix)
next
  case True
  then have r: "NewTracer_range oc env (map snd (Maps (heap w ! specp))) =
     (case NewSocketEnricher oc env of
        None \<Rightarrow> None
      | Some (Inl err, es) \<Rightarrow> Some (None, es @ [log_Errorf ''creating socket enricher: %s'' err])
      | Some (Inr se, es) \<Rightarrow> Some (Some se, es))"
    by (simp add: declares_sockets_def NewTracer_range_with)
  obtain res es where n: "NewSocketEnricher oc env = Some (res, es)"
    using NewSocketEnricher_no_panic [of oc env] by (cases "NewSocketEnricher oc env") auto
  show ?thesis
  proof (cases res)
    case (Inl err)
    with True r n show ?thesis by (simp add: NewTracer_def Maps_after_fix)
  next
    case (Inr se)
    with True r n show ?thesis by (simp add: NewTracer_def Maps_after_fix)
  qed
qed

text \<open>An instance: the template declares \<open>sockets\<close> and the asset does not load.\<close>

theorem NewTracer_enricher_failure_not_fatal_witness:
  "\<exists>t w'. NewTracer id demo_objs_Close demo_start_env_fail 0 ''ig_trace_dns'' ''events'' 50
        demo_baseEvent demo_processEvent demo_world = Some ((t, None), w') \<and>
     socketEnricher t = None \<and>
     trace w' = [log_Errorf ''creating socket enricher: %s''
                   (Errorf ''loading asset: %w'' [W (ErrExt ''no BTF'')])]"
proof -
  have d: "declares_sockets (heap demo_world ! 0)"
    by (simp add: declares_sockets_def demo_world_def demo_spec_def SocketsMapName_def)
  have e: "NewSocketEnricher demo_objs_Close demo_start_env_fail =
     Some (Inl (Errorf ''loading asset: %w'' [W (ErrExt ''no BTF'')]), [])"
    by (simp add: NewSocketEnricher_def start_def Close_def closeOnce_Do_def demo_objs_Close_def
        demo_start_env_fail_def zero_objs_def)
  have t: "trace demo_world = []" by (simp add: demo_world_def)
  from NewTracer_enricher_failure_not_fatal [of id demo_objs_Close demo_start_env_fail 0
      "''ig_trace_dns''" "''events''" 50 demo_baseEvent demo_processEvent demo_world]
  show ?thesis unfolding e using d t by simp
qed

subsection \<open>C5: a read that fails\<close>

text \<open>
  Claim C5. After any number of records, a read that fails with the reader-closed
  condition makes \<open>listen\<close> return with no further call of the callback; a read that
  fails otherwise makes it call the callback once, with the base event of the error
  \<open>Error reading perf ring buffer\<close>, and return. In both cases what the reader would
  deliver afterwards (\<open>reads\<close>) has no effect.
\<close>

theorem listen_read_error:
  "listen netns baseEv processEv (map Inr recs @ Inl err # reads) =
     (fst (listen netns baseEv processEv (map Inr recs)) @
      (if is_ErrClosed err then []
       else [baseEv (types_Err (Sprintf ''Error reading perf ring buffer (%d): %s''
                                  [D (unat netns), S err]))]),
      True)"
  by (simp add: listen_append)

text \<open>Two instances: a wrapped \<open>ErrClosed\<close>, and another error, each after one packet.\<close>

theorem listen_read_error_witness:
  "listen 7 demo_baseEvent demo_processEvent
     (map Inr [demo_record [1] 0] @ Inl (Errorf ''perf ringbuffer: %w'' [W ErrClosed]) #
      [Inr (demo_record [1] 0)]) = ([Some ''packet''], True) \<and>
   listen 7 demo_baseEvent demo_processEvent
     (map Inr [demo_record [1] 0] @ Inl (ErrExt ''EBADF'') # [Inr (demo_record [1] 0)]) =
     ([Some ''packet'', Some ''error''], True)"
  using listen_read_error [of 7 demo_baseEvent demo_processEvent "[demo_record [1] 0]"
      "Errorf ''perf ringbuffer: %w'' [W ErrClosed]" "[Inr (demo_record [1] 0)]"]
    listen_read_error [of 7 demo_baseEvent demo_processEvent "[demo_record [1] 0]"
      "ErrExt ''EBADF''" "[Inr (demo_record [1] 0)]"]
  by (simp add: demo_baseEvent_def demo_processEvent_def demo_record_def types_Err_def)

subsection \<open>C6: one record\<close>

text \<open>
  Claim C6. For a record read after any number of records: if its lost-sample count is
  not zero, the callback is called once with the base event of the warning
  \<open>lost %d samples (%d)\<close> of the count and the namespace; otherwise, if decoding fails,
  once with the base event of the error; if the decoder returns neither event nor error,
  not at all; otherwise once with the event. In every case the loop goes on with the
  following reads. The warning is tagged \<open>WARN\<close>, the error \<open>ERR\<close> (\<open>types_severity\<close>).
\<close>

theorem listen_record:
  "listen netns baseEv processEv (map Inr recs @ Inr rec # reads) =
     (fst (listen netns baseEv processEv (map Inr recs)) @
      (if LostSamples rec \<noteq> 0 then
         [baseEv (types_Warn (Sprintf ''lost %d samples (%d)''
                                [D (unat (LostSamples rec)), D (unat netns)]))]
       else (case processEv (RawSample rec) netns of
               (event, Some e) \<Rightarrow> [baseEv (types_Err (ErrorText e))]
             | (None, None) \<Rightarrow> []
             | (Some ev, None) \<Rightarrow> [Some ev])) @
      fst (listen netns baseEv processEv reads),
      snd (listen netns baseEv processEv reads))"
  by (simp add: listen_append split: prod.splits option.splits)

text \<open>Three instances: three lost samples, a sample that does not decode, a filtered one.\<close>

theorem listen_record_witness:
  "listen 7 demo_baseEvent demo_processEvent
     (map Inr [demo_record [1] 0] @ Inr (demo_record [1] 3) # [Inr (demo_record [1] 0)]) =
     ([Some ''packet'', Some ''warning'', Some ''packet''], False) \<and>
   listen 7 demo_baseEvent demo_processEvent
     (map Inr [demo_record [1] 0] @ Inr (demo_record [] 0) # [Inr (demo_record [1] 0)]) =
     ([Some ''packet'', Some ''error'', Some ''packet''], False) \<and>
   listen 7 demo_baseEvent demo_processEvent
     (map Inr [demo_record [1] 0] @ Inr (demo_record [0] 0) # [Inr (demo_record [1] 0)]) =
     ([Some ''packet'', Some ''packet''], False)"
  using listen_record [of 7 demo_baseEvent demo_processEvent "[demo_record [1] 0]"
      "demo_record [1] 3" "[Inr (demo_record [1] 0)]"]
    listen_record [of 7 demo_baseEvent demo_processEvent "[demo_record [1] 0]"
      "demo_record [] 0" "[Inr (demo_record [1] 0)]"]
    listen_record [of 7 demo_baseEvent demo_processEvent "[demo_record [1] 0]"
      "demo_record [0] 0" "[Inr (demo_record [1] 0)]"]
  by (simp add: demo_baseEvent_def demo_processEvent_def demo_record_def types_Err_def
      types_Warn_def)

subsection \<open>C7: detaching a pid that is not attached\<close>

text \<open>
  Claim C7. For every pid that is in the \<open>users\<close> of no registered attachment,
  \<open>Detach\<close> returns the error \<open>pid %d is not attached\<close> and changes nothing: the Tracer
  (its \<open>attachments\<close>, every attachment's \<open>users\<close> and resources) and the world are those
  from before the call, whatever the order in which the map is visited.
\<close>

theorem Detach_not_attached:
  assumes "\<forall>n. \<not> has_user t pid n"
  shows "Detach order pid t w = (Some (Errorf ''pid %d is not attached'' [D (unat pid)]), t, w)"
  using assms by (intro Detach_none first_found_absent)

text \<open>An instance: pid 12 on a Tracer whose two attachments have pids 10 and 11.\<close>

theorem Detach_not_attached_witness:
  "(\<forall>n. \<not> has_user demo_tracer2 12 n) \<and>
   Detach [1, 2] 12 demo_tracer2 demo_world =
     (Some (Errorf ''pid %d is not attached'' [D (unat (12 :: pid))]), demo_tracer2, demo_world)"
proof -
  have h: "\<forall>n. \<not> has_user demo_tracer2 12 n"
    by (simp add: has_user_def demo_tracer2_def demo_tracer_def demo_attachment_def)
  from h Detach_not_attached [OF h, of "[1, 2]" demo_world] show ?thesis by (rule conjI)
qed

subsection \<open>C8: the template is copied\<close>

text \<open>
  Claim C8. \<open>newAttachment\<close> works on a copy: after it has run, with or without the
  rewriting of \<open>current_netns\<close>, the object at the address of the Tracer's template is
  what it was, so a second attachment, for another namespace, is loaded from the original
  template with its own namespace only.
\<close>

theorem newAttachment_copies_template:
  assumes "p < length (heap w)"
  shows "case newAttachment env pid netns se p pn pm sa w of
           (r1, w1) \<Rightarrow>
             (case newAttachment env' pid' netns' se p pn pm sa w1 of
                (r2, w2) \<Rightarrow>
                  heap w1 ! p = heap w ! p \<and> heap w2 ! p = heap w ! p \<and>
                  (\<forall>s rp c. NewCollectionWithOptions s rp c \<in> set (drop (length (trace w)) (trace w1))
                       \<longrightarrow> s = template_for se netns (heap w ! p)) \<and>
                  (\<forall>s rp c. NewCollectionWithOptions s rp c \<in> set (drop (length (trace w1)) (trace w2))
                       \<longrightarrow> s = template_for se netns' (heap w ! p)))"
proof -
  obtain r1 w1 where n1: "newAttachment env pid netns se p pn pm sa w = (r1, w1)"
    by (cases "newAttachment env pid netns se p pn pm sa w") auto
  obtain r2 w2 where n2: "newAttachment env' pid' netns' se p pn pm sa w1 = (r2, w2)"
    by (cases "newAttachment env' pid' netns' se p pn pm sa w1") auto
  from newAttachment_heap [OF n1] assms
  have h1: "heap w1 ! p = heap w ! p" and p1: "p < length (heap w1)"
    by (metis nth_take, simp)
  from newAttachment_heap [OF n2] p1
  have h2: "heap w2 ! p = heap w1 ! p"
    by (metis nth_take)
  have l1: "\<forall>s rp c. NewCollectionWithOptions s rp c \<in> set (drop (length (trace w)) (trace w1))
                       \<longrightarrow> s = template_for se netns (heap w ! p)"
    using newAttachment_loaded [OF n1 assms] by blast
  have l2: "\<forall>s rp c. NewCollectionWithOptions s rp c \<in> set (drop (length (trace w1)) (trace w2))
                       \<longrightarrow> s = template_for se netns' (heap w ! p)"
    using newAttachment_loaded [OF n2 p1] h1 by auto
  from h1 h2 l1 l2 show ?thesis
    unfolding n1 n2 prod.case by simp
qed


text \<open>
  An instance with an enricher, for namespaces 1 and 2: the constant is rewritten in the
  copy at address 1, not in the template at address 0.
\<close>

theorem newAttachment_copies_template_witness:
  "0 < length (heap demo_world) \<and>
   heap (snd (newAttachment demo_env 10 1 (Some demo_enricher) 0 ''ig_trace_dns'' ''events'' 50
                demo_world)) =
     [demo_spec, demo_spec\<lparr>Consts := [(''current_netns'', 1)]\<rparr>] \<and>
   (case newAttachment demo_env 10 1 (Some demo_enricher) 0 ''ig_trace_dns'' ''events'' 50 demo_world of
      (r1, w1) \<Rightarrow>
        (case newAttachment demo_env 11 2 (Some demo_enricher) 0 ''ig_trace_dns'' ''events'' 50 w1 of
           (r2, w2) \<Rightarrow>
             heap w1 ! 0 = heap demo_world ! 0 \<and> heap w2 ! 0 = heap demo_world ! 0 \<and>
             (\<forall>s rp c. NewCollectionWithOptions s rp c
                          \<in> set (drop (length (trace demo_world)) (trace w1))
                  \<longrightarrow> s = template_for (Some demo_enricher) 1 (heap demo_world ! 0)) \<and>
             (\<forall>s rp c. NewCollectionWithOptions s rp c \<in> set (drop (length (trace w1)) (trace w2))
                  \<longrightarrow> s = template_for (Some demo_enricher) 2 (heap demo_world ! 0))))"
proof -
  have h: "0 < length (heap demo_world)" by (simp add: demo_world_def)
  have e: "heap (snd (newAttachment demo_env 10 1 (Some demo_enricher) 0 ''ig_trace_dns'' ''events'' 50
                demo_world)) =
     [demo_spec, demo_spec\<lparr>Consts := [(''current_netns'', 1)]\<rparr>]"
    by (simp add: newAttachment_def newAttachment_body_def newAttachment_deferred_def
        spec_Copy_def RewriteConstants_def rawsock_OpenRawSock_def demo_env_def
        demo_world_def demo_collection_def demo_spec_def)
  from h e newAttachment_copies_template [OF h, where env = demo_env and pid = 10 and netns = 1
      and se = "Some demo_enricher" and pn = "''ig_trace_dns''" and pm = "''events''" and sa = 50
      and env' = demo_env and pid' = 11 and netns' = 2]
  show ?thesis by (intro conjI)
qed

subsection \<open>C9: closing the enricher repeatedly\<close>

text \<open>
  Claim C9. Take an enricher whose Once has not fired and whose channel \<open>done\<close> is nil or
  open, and an \<open>objs.Close\<close> that does nothing when called again on the objects it has
  closed. Then any number \<open>n + 1\<close> of successive \<open>Close\<close> calls does not panic and makes
  the calls of a single one: \<open>done\<close> is closed once (if not nil), then every link is
  closed once, in the order of \<open>se.links\<close>, which is the order of attachment
  (\<open>start_links\<close>), then the objects are closed.
\<close>

theorem Close_repeated:
  assumes once: "\<not> closeOnce se" and chan: "done_chan se \<noteq> Some True"
    and idem: "oc (snd (oc (objs se))) = ([], snd (oc (objs se)))"
  shows "Close_times oc (Suc n) se =
     Some (se\<lparr>closeOnce := True, done_chan := map_option (\<lambda>_. True) (done_chan se), links := [],
              objs := snd (oc (objs se))\<rparr>,
           (case done_chan se of None \<Rightarrow> [] | Some _ \<Rightarrow> [close_done]) @
           map CloseLink (links se) @ fst (oc (objs se)))"
proof -
  let ?se1 = "se\<lparr>closeOnce := True, done_chan := map_option (\<lambda>_. True) (done_chan se), links := [],
              objs := snd (oc (objs se))\<rparr>"
  have "Close_times oc n ?se1 = Some (?se1, [])"
    using idem by (intro Close_times_again) simp_all
  then show ?thesis
    by (simp add: Close_first [OF once chan])
qed

text \<open>An instance: one call and three calls on an enricher with two links.\<close>

theorem Close_repeated_witness:
  "\<not> closeOnce demo_enricher \<and> done_chan demo_enricher \<noteq> Some True \<and>
   demo_objs_Close (snd (demo_objs_Close (objs demo_enricher))) =
     ([], snd (demo_objs_Close (objs demo_enricher))) \<and>
   map_option snd (Close_times demo_objs_Close (Suc 0) demo_enricher) =
     Some [close_done, CloseLink 4, CloseLink 5, fd_Close 9] \<and>
   map_option snd (Close_times demo_objs_Close (Suc 2) demo_enricher) =
     Some [close_done, CloseLink 4, CloseLink 5, fd_Close 9]"
proof -
  have h1: "\<not> closeOnce demo_enricher" by (simp add: demo_enricher_def)
  have h2: "done_chan demo_enricher \<noteq> Some True" by (simp add: demo_enricher_def)
  have h3: "demo_objs_Close (snd (demo_objs_Close (objs demo_enricher))) =
     ([], snd (demo_objs_Close (objs demo_enricher)))"
    by (simp add: demo_objs_Close_def)
  have e: "(case done_chan demo_enricher of None \<Rightarrow> [] | Some _ \<Rightarrow> [close_done]) @
           map CloseLink (links demo_enricher) @ fst (demo_objs_Close (objs demo_enricher)) =
           [close_done, CloseLink 4, CloseLink 5, fd_Close 9]"
    by (simp add: demo_enricher_def demo_objs_Close_def zero_objs_def)
  from Close_repeated [OF h1 h2 h3, of 0] e
  have c1: "map_option snd (Close_times demo_objs_Close (Suc 0) demo_enricher) =
     Some [close_done, CloseLink 4, CloseLink 5, fd_Close 9]" by simp
  from Close_repeated [OF h1 h2 h3, of 2] e
  have c2: "map_option snd (Close_times demo_objs_Close (Suc 2) demo_enricher) =
     Some [close_done, CloseLink 4, CloseLink 5, fd_Close 9]" by simp
  from h1 h2 h3 c1 c2 show ?thesis by (intro conjI)
qed

subsection \<open>C10: a pid in several attachments\<close>

text \<open>
  Claim C10. When \<open>pid\<close> is in the \<open>users\<close> of several attachments, one \<open>Detach\<close>
  returns success and removes it from exactly one of them, the first one found in the order
  of the visit; every other attachment, and the membership of \<open>pid\<close> in it, is unchanged.
\<close>

theorem Detach_first_found_only:
  assumes "first_found order pid t = Some netns"
  shows "case Detach order pid t w of
           (err, t', w') \<Rightarrow>
             err = None \<and> \<not> has_user t' pid netns \<and>
             (\<forall>n. n \<noteq> netns \<longrightarrow>
                  attachments t' n = attachments t n \<and> has_user t' pid n = has_user t pid n)"
proof -
  from first_found_has [OF assms] obtain a where a: "attachments t netns = Some a" by blast
  show ?thesis
    unfolding Detach_some [OF assms a]
    by (simp add: has_user_def)
qed

text \<open>An instance: pid 10 is in namespaces 1 and 2, and namespace 2 is visited first.\<close>

theorem Detach_first_found_only_witness:
  "first_found [2, 1] 10 demo_tracer2 = Some 2 \<and> has_user demo_tracer2 10 1 \<and>
   (case Detach [2, 1] 10 demo_tracer2 demo_world of
      (err, t', w') \<Rightarrow>
        err = None \<and> \<not> has_user t' 10 2 \<and>
        (\<forall>n. n \<noteq> 2 \<longrightarrow>
             attachments t' n = attachments demo_tracer2 n \<and>
             has_user t' 10 n = has_user demo_tracer2 10 n))"
proof -
  have f2: "first_found [2, 1] 10 demo_tracer2 = Some 2"
    by (simp add: first_found_def has_user_def demo_tracer2_def demo_tracer_def demo_attachment_def)
  have h1: "has_user demo_tracer2 10 1"
    by (simp add: has_user_def demo_tracer2_def demo_tracer_def demo_attachment_def)
  from f2 h1 Detach_first_found_only [OF f2, of demo_world] show ?thesis by (intro conjI)
qed

end
